theory Spec2Isabelle
  imports Main "HOL-Library.Word"
begin

unbundle bit_operations_syntax

section \<open>The processing unit of evm.c\<close>

text \<open>
  \<^verbatim>\<open>struct PU\<close> has a program counter, a flags register and eight registers, all of C type
  \<^verbatim>\<open>unsigned\<close> (32 bits), and a pointer to a pool of \<^verbatim>\<open>unsigned char\<close>. The pool is the
  list \<open>pmem\<close>; its length is the size of the array the pointer refers to. The table of
  handlers \<^verbatim>\<open>op[32]\<close> is never assigned after its static initialisation and is the constant
  \<open>Core1_op\<close> below.
\<close>

type_synonym u32 = "32 word"
type_synonym u8 = "8 word"

record PU =
  pc :: u32
  fr :: u32
  r :: "u32 list"
  pmem :: "u8 list"
  pmemsize :: u32

datatype Ops = SUS | MOV | ADD | SUB | JIF | JMR | MPC | IN | OUT | AT | ATP

text \<open>
  What ends a run other than a return: a failed \<^verbatim>\<open>assert\<close> (the process aborts), and an
  access outside an array, which C leaves undefined.
\<close>

datatype fault = Assertion_failed | Undefined_behaviour

definition and_then :: "fault + 'a \<Rightarrow> ('a \<Rightarrow> fault + 'b) \<Rightarrow> fault + 'b" where
  "and_then m f = (case m of Inl e \<Rightarrow> Inl e | Inr v \<Rightarrow> f v)"

subsection \<open>Flags and the operand encoding\<close>

text \<open>
  The macros \<^verbatim>\<open>num_(n)\<close> and \<^verbatim>\<open>addr_(p)\<close> are \<open>num_enc\<close> and \<open>addr_enc\<close> here (a name
  cannot end with an underscore). All of them work on \<^verbatim>\<open>unsigned\<close> values.
\<close>

definition FL_ZERO :: u32 where "FL_ZERO = 1"
definition FL_CARRY :: u32 where "FL_CARRY = 2"

definition isflag :: "PU \<Rightarrow> u32 \<Rightarrow> bool" where
  "isflag pu f = (fr pu AND f \<noteq> 0)"

definition setflag :: "PU \<Rightarrow> bool \<Rightarrow> u32 \<Rightarrow> PU" where
  "setflag pu e f = (if e then pu\<lparr>fr := fr pu OR f\<rparr> else pu\<lparr>fr := fr pu AND NOT f\<rparr>)"

definition setzf :: "PU \<Rightarrow> bool \<Rightarrow> PU" where
  "setzf pu e = setflag pu e FL_ZERO"

definition setcf :: "PU \<Rightarrow> bool \<Rightarrow> PU" where
  "setcf pu e = setflag pu e FL_CARRY"

definition num_enc :: "u32 \<Rightarrow> u32" where
  "num_enc n = n * 2 + 1"

definition addr_enc :: "u32 \<Rightarrow> u32" where
  "addr_enc p = p * 2"

definition tonum :: "u32 \<Rightarrow> u32" where
  "tonum e = drop_bit 1 e"

definition isnum :: "u32 \<Rightarrow> bool" where
  "isnum e = (e AND 1 \<noteq> 0)"

subsection \<open>Reading and writing an operand\<close>

text \<open>
  \<^verbatim>\<open>obj_read\<close> and \<^verbatim>\<open>obj_write\<close> select the register array when the halved operand is below
  16. The array \<^verbatim>\<open>r\<close> has eight elements, so an index from 8 to 15 is outside it, and an
  index into the pool at or beyond its length is outside the pool; both are
  \<open>Undefined_behaviour\<close>. A value stored into the pool is converted to \<^verbatim>\<open>unsigned char\<close>,
  a value stored into a register is not converted.
\<close>

definition obj_read :: "PU \<Rightarrow> u32 \<Rightarrow> fault + u32" where
  "obj_read pcore expr =
     (if isnum expr then Inr (tonum expr)
      else let e = expr div 2 in
        if e < 16 then
          (if unat e < length (r pcore) then Inr (r pcore ! unat e)
           else Inl Undefined_behaviour)
        else
          (if unat e < length (pmem pcore) then Inr (ucast (pmem pcore ! unat e))
           else Inl Undefined_behaviour))"

definition obj_write :: "PU \<Rightarrow> u32 \<Rightarrow> u32 \<Rightarrow> fault + PU" where
  "obj_write pcore addr expr =
     (if isnum addr then Inl Assertion_failed
      else let a = addr div 2 in
        if a < 16 then
          and_then (obj_read pcore expr) (\<lambda>v.
            if unat a < length (r pcore) then Inr (pcore\<lparr>r := (r pcore)[unat a := v]\<rparr>)
            else Inl Undefined_behaviour)
        else
          and_then (obj_read pcore expr) (\<lambda>v.
            if unat a < length (pmem pcore)
            then Inr (pcore\<lparr>pmem := (pmem pcore)[unat a := ucast v]\<rparr>)
            else Inl Undefined_behaviour))"

subsection \<open>The console\<close>

text \<open>
  The standard input is the sequence of \<^verbatim>\<open>int\<close> results that the successive calls of
  \<^verbatim>\<open>getchar\<close> and \<^verbatim>\<open>scanf("%d")\<close> deliver, converted to \<^verbatim>\<open>unsigned\<close>. When it is
  exhausted, \<^verbatim>\<open>getchar\<close> returns \<^verbatim>\<open>EOF\<close> (that is \<open>-1\<close>) and \<^verbatim>\<open>scanf\<close> leaves \<^verbatim>\<open>n\<close> at its
  initial value 0. The standard output is the list of calls made, latest last.
\<close>

datatype out_call = Put_char u32 | Print_num u32

record console =
  stdin :: "u32 list"
  stdout :: "out_call list"
  isatty :: bool

definition IO_CHR :: u32 where "IO_CHR = 0"
definition IO_NUM :: u32 where "IO_NUM = 1"
definition IO_STR :: u32 where "IO_STR = 2"

definition getinp :: "console \<Rightarrow> u32 \<Rightarrow> u32 \<times> console" where
  "getinp con ch =
     (if ch = IO_CHR then
        (case stdin con of [] \<Rightarrow> (- 1, con) | c # cs \<Rightarrow> (c, con\<lparr>stdin := cs\<rparr>))
      else if ch = IO_NUM then
        (let con1 = (if isatty con then con\<lparr>stdout := stdout con @ [Put_char 63]\<rparr> else con)
         in case stdin con1 of [] \<Rightarrow> (0, con1) | n # ns \<Rightarrow> (n, con1\<lparr>stdin := ns\<rparr>))
      else (0, con))"

definition putout :: "console \<Rightarrow> u32 \<Rightarrow> u32 \<Rightarrow> console" where
  "putout con ch n =
     (if ch = IO_CHR then con\<lparr>stdout := stdout con @ [Put_char n]\<rparr>
      else if ch = IO_NUM then con\<lparr>stdout := stdout con @ [Print_num n]\<rparr>
      else con)"

subsection \<open>The handlers\<close>

text \<open>\<^verbatim>\<open>pcore->pmem[pcore->pc++]\<close>: the byte at the program counter, which then advances.\<close>

definition fetch :: "PU \<Rightarrow> fault + (u32 \<times> PU)" where
  "fetch pcore =
     (if unat (pc pcore) < length (pmem pcore)
      then Inr (ucast (pmem pcore ! unat (pc pcore)), pcore\<lparr>pc := pc pcore + 1\<rparr>)
      else Inl Undefined_behaviour)"

definition op_SUS :: "PU \<Rightarrow> fault + PU" where
  "op_SUS pcore = Inr pcore"

definition op_MOV :: "PU \<Rightarrow> fault + PU" where
  "op_MOV pcore =
     and_then (fetch pcore) (\<lambda>(expr, p1).
     and_then (fetch p1) (\<lambda>(addr, p2).
       obj_write p2 addr expr))"

definition op_ATP :: "PU \<Rightarrow> fault + PU" where
  "op_ATP pcore =
     and_then (fetch pcore) (\<lambda>(expr, p1).
     and_then (fetch p1) (\<lambda>(ixreg, p2).
       if isnum ixreg then Inl Assertion_failed
       else and_then (obj_read p2 ixreg) (\<lambda>a.
         obj_write p2 (addr_enc a) expr)))"

definition op_AT :: "PU \<Rightarrow> fault + PU" where
  "op_AT pcore =
     and_then (fetch pcore) (\<lambda>(ixreg, p1).
     and_then (fetch p1) (\<lambda>(addr, p2).
       if isnum ixreg then Inl Assertion_failed
       else if isnum addr then Inl Assertion_failed
       else and_then (obj_read p2 ixreg) (\<lambda>a.
         obj_write p2 addr (addr_enc a))))"

definition op_ADD :: "PU \<Rightarrow> fault + PU" where
  "op_ADD pcore =
     and_then (fetch pcore) (\<lambda>(expr, p1).
     and_then (fetch p1) (\<lambda>(addr, p2).
     and_then (obj_read p2 addr) (\<lambda>old.
     and_then (obj_read p2 expr) (\<lambda>delta.
       let new = old + delta;
           p3 = setcf p2 (new < old);
           p4 = setzf p3 (new = 0)
       in obj_write p4 addr (num_enc new)))))"

definition op_SUB :: "PU \<Rightarrow> fault + PU" where
  "op_SUB pcore =
     and_then (fetch pcore) (\<lambda>(expr, p1).
     and_then (fetch p1) (\<lambda>(addr, p2).
     and_then (obj_read p2 addr) (\<lambda>old.
     and_then (obj_read p2 expr) (\<lambda>delta.
       let new = old - delta;
           p3 = setcf p2 (new > old);
           p4 = setzf p3 (new = 0)
       in obj_write p4 addr (num_enc new)))))"

definition op_JIF :: "PU \<Rightarrow> fault + PU" where
  "op_JIF pcore =
     and_then (fetch pcore) (\<lambda>(flag, p1).
     and_then (fetch p1) (\<lambda>(addr, p2).
       if \<not> isflag p2 flag
       then and_then (obj_read p2 addr) (\<lambda>v. Inr (p2\<lparr>pc := v\<rparr>))
       else Inr p2))"

definition op_JMR :: "PU \<Rightarrow> fault + PU" where
  "op_JMR pcore =
     and_then (fetch pcore) (\<lambda>(addr, p1).
     and_then (obj_read p1 addr) (\<lambda>v. Inr (p1\<lparr>pc := v\<rparr>)))"

definition op_MPC :: "PU \<Rightarrow> fault + PU" where
  "op_MPC pcore =
     and_then (fetch pcore) (\<lambda>(addr, p1).
       obj_write p1 addr (num_enc (pc p1)))"

definition op_IN :: "PU \<Rightarrow> console \<Rightarrow> fault + (PU \<times> console)" where
  "op_IN pcore con =
     and_then (fetch pcore) (\<lambda>(ch, p1).
     and_then (fetch p1) (\<lambda>(addr, p2).
       case getinp con ch of (inp, con1) \<Rightarrow>
         and_then (obj_write p2 addr (num_enc inp)) (\<lambda>p3. Inr (p3, con1))))"

definition op_OUT :: "PU \<Rightarrow> console \<Rightarrow> fault + (PU \<times> console)" where
  "op_OUT pcore con =
     and_then (fetch pcore) (\<lambda>(ch, p1).
     and_then (fetch p1) (\<lambda>(addr, p2).
     and_then (obj_read p2 addr) (\<lambda>v. Inr (p2, putout con ch v))))"

subsection \<open>The table of handlers and the execution loop\<close>

text \<open>
  The initialiser of \<^verbatim>\<open>Core1\<close> fills the entries 0 to 10 of \<^verbatim>\<open>op[32]\<close>; the other 21 are
  null pointers.
\<close>

definition Core1_op :: "Ops option list" where
  "Core1_op = [Some SUS, Some MOV, Some ADD, Some SUB, Some JIF, Some JMR, Some MPC,
               Some IN, Some OUT, Some AT, Some ATP] @ replicate 21 None"

definition call_op :: "Ops \<Rightarrow> PU \<Rightarrow> console \<Rightarrow> fault + (PU \<times> console)" where
  "call_op h pcore con =
     (case h of
        SUS \<Rightarrow> and_then (op_SUS pcore) (\<lambda>p. Inr (p, con))
      | MOV \<Rightarrow> and_then (op_MOV pcore) (\<lambda>p. Inr (p, con))
      | ADD \<Rightarrow> and_then (op_ADD pcore) (\<lambda>p. Inr (p, con))
      | SUB \<Rightarrow> and_then (op_SUB pcore) (\<lambda>p. Inr (p, con))
      | JIF \<Rightarrow> and_then (op_JIF pcore) (\<lambda>p. Inr (p, con))
      | JMR \<Rightarrow> and_then (op_JMR pcore) (\<lambda>p. Inr (p, con))
      | MPC \<Rightarrow> and_then (op_MPC pcore) (\<lambda>p. Inr (p, con))
      | IN \<Rightarrow> op_IN pcore con
      | OUT \<Rightarrow> op_OUT pcore con
      | AT \<Rightarrow> and_then (op_AT pcore) (\<lambda>p. Inr (p, con))
      | ATP \<Rightarrow> and_then (op_ATP pcore) (\<lambda>p. Inr (p, con)))"

datatype status = RUNNING | HALTED

text \<open>
  One turn of the \<^verbatim>\<open>do ... while\<close> loop of \<^verbatim>\<open>resume_core\<close>, with \<^verbatim>\<open>debug\<close> at 0 so that
  \<^verbatim>\<open>dump_state\<close> returns at once. \<^verbatim>\<open>icode\<close> is an \<^verbatim>\<open>unsigned char\<close>; reading \<^verbatim>\<open>op[icode]\<close>
  for \<^verbatim>\<open>icode\<close> of 32 or more is outside the table.
\<close>

definition step :: "PU \<times> console \<Rightarrow> fault + (status \<times> PU \<times> console)" where
  "step st =
     (case st of (pcore, con) \<Rightarrow>
        and_then (fetch pcore) (\<lambda>(icode, p1).
          if unat icode < length Core1_op then
            (case Core1_op ! unat icode of
               None \<Rightarrow> Inr (HALTED, p1, con)
             | Some h \<Rightarrow>
                 and_then (call_op h p1 con) (\<lambda>(p2, con2).
                   Inr (if h \<noteq> SUS then RUNNING else HALTED, p2, con2)))
          else Inl Undefined_behaviour))"

partial_function (option) resume_core :: "PU \<times> console \<Rightarrow> (fault + PU \<times> console) option" where
  "resume_core st =
     (case step st of
        Inl e \<Rightarrow> Some (Inl e)
      | Inr (RUNNING, p, con) \<Rightarrow> resume_core (p, con)
      | Inr (HALTED, p, con) \<Rightarrow> Some (Inr (p, con)))"


subsection \<open>The built-in image\<close>

text \<open>
  \<^verbatim>\<open>Core1\<close> is a static object: apart from its table of handlers, every field starts at
  zero, and the pointer to the pool is null (the empty list here). \<^verbatim>\<open>MEM\<close> is the 128-byte
  array with the bootstrap program; \<^verbatim>\<open>VARS\<close> is 124 and \<^verbatim>\<open>GREET\<close> is 120, so that
  \<^verbatim>\<open>num_(VARS)\<close> is 249, \<^verbatim>\<open>addr_(GREET)\<close> is 240, \<^verbatim>\<open>num_(GREET+1)\<close> is 243, \<^verbatim>\<open>num_(48)\<close> is 97
  and \<^verbatim>\<open>addr_(VARS)\<close> is 248.
\<close>

definition MEM_SIZE :: u32 where "MEM_SIZE = 128"

definition Core1 :: PU where
  "Core1 = \<lparr>pc = 0, fr = 0, r = [0, 0, 0, 0, 0, 0, 0, 0], pmem = [], pmemsize = 0\<rparr>"

definition MEM :: "u8 list" where
  "MEM = [7, 1, 2,
          7, 1, 4,
          1, 249, 6,
          10, 2, 6,
          1, 2, 14,
          6, 8,
          7, 1, 10,
          10, 10, 14,
          2, 3, 14,
          3, 3, 4,
          4, 1, 8,
          6, 240,
          1, 243, 14,
          7, 1, 4,
          7, 1, 12,
          1, 97, 6,
          5, 248,
          0,
          5, 240] @ replicate 77 0"

subsection \<open>The image file\<close>

text \<open>
  A file is its sequence of bytes, and the file system maps a name to a file. The header
  is written and read as the bytes of \<^verbatim>\<open>struct imageheader\<close>: four \<^verbatim>\<open>unsigned\<close> fields, each
  in the byte order of the host, taken to be little-endian. \<^verbatim>\<open>write\<close> and \<^verbatim>\<open>read\<close> are taken
  to transfer in one call all the bytes asked for that the file has, and \<^verbatim>\<open>malloc\<close> to
  succeed. The messages of \<^verbatim>\<open>perror\<close> and \<^verbatim>\<open>printf\<close> are the \<open>load_error\<close> returned. The
  fields of the header carry the prefix \<open>h_\<close>, since \<open>pc\<close> and \<open>size\<close> are taken.
\<close>

type_synonym files = "string \<Rightarrow> u8 list option"

record imageheader =
  h_magic :: u32
  h_size :: u32
  h_memsize :: u32
  h_pc :: u32

definition MAGIC :: u32 where "MAGIC = 0x2017"

definition put_u32 :: "u32 \<Rightarrow> u8 list" where
  "put_u32 w = [ucast w, ucast (drop_bit 8 w), ucast (drop_bit 16 w), ucast (drop_bit 24 w)]"

definition get_u32 :: "u8 list \<Rightarrow> u32" where
  "get_u32 bs = ucast (bs ! 0) OR push_bit 8 (ucast (bs ! 1)) OR push_bit 16 (ucast (bs ! 2))
                OR push_bit 24 (ucast (bs ! 3))"

definition header_bytes :: "imageheader \<Rightarrow> u8 list" where
  "header_bytes h = put_u32 (h_magic h) @ put_u32 (h_size h) @ put_u32 (h_memsize h)
                    @ put_u32 (h_pc h)"

text \<open>Reads a header from at least 16 bytes.\<close>

definition read_header :: "u8 list \<Rightarrow> imageheader" where
  "read_header bs = \<lparr>h_magic = get_u32 (take 4 bs), h_size = get_u32 (take 4 (drop 4 bs)),
                     h_memsize = get_u32 (take 4 (drop 8 bs)),
                     h_pc = get_u32 (take 4 (drop 12 bs))\<rparr>"

text \<open>
  \<^verbatim>\<open>save_image\<close>: \<^verbatim>\<open>open\<close> with \<^verbatim>\<open>O_CREAT|O_EXCL\<close> fails when the file exists, and nothing
  is written then. The loop over \<^verbatim>\<open>len\<close>, an \<^verbatim>\<open>int\<close>, is entered when \<^verbatim>\<open>h.memsize\<close> is positive
  as a signed number, and writes \<^verbatim>\<open>h.memsize\<close> bytes of the pool.
\<close>

definition save_image :: "PU \<Rightarrow> string option \<Rightarrow> files \<Rightarrow> fault + files" where
  "save_image pcore filename fs =
     (case filename of
        None \<Rightarrow> Inr fs
      | Some name \<Rightarrow>
          if fs name \<noteq> None then Inr fs
          else
            let h = \<lparr>h_magic = MAGIC, h_size = 16 + pmemsize pcore,
                     h_memsize = pmemsize pcore, h_pc = pc pcore\<rparr>
            in if 0 < sint (h_memsize h) then
                 (if unat (h_memsize h) \<le> length (pmem pcore)
                  then Inr (fs(name \<mapsto> header_bytes h @ take (unat (h_memsize h)) (pmem pcore)))
                  else Inl Undefined_behaviour)
               else Inr (fs(name \<mapsto> header_bytes h)))"

datatype load_error =
  File_unreadable | Short_header | Bad_magic | Size_mismatch | Pc_beyond_memory | Short_payload

text \<open>
  \<^verbatim>\<open>load_image\<close> returns 0 (\<open>Loaded\<close>) or \<open>-1\<close> (\<open>Load_failed\<close>), or the process aborts at
  \<^verbatim>\<open>assert(0 < h.memsize)\<close>. It assigns only \<^verbatim>\<open>pc\<close>, \<^verbatim>\<open>pmem\<close> and \<^verbatim>\<open>pmemsize\<close>.
\<close>

datatype load_result = Loaded PU | Load_failed load_error | Load_aborted

definition load_image :: "PU \<Rightarrow> string option \<Rightarrow> files \<Rightarrow> load_result" where
  "load_image pcore filename fs =
     (case filename of
        None \<Rightarrow> Loaded (pcore\<lparr>pc := 0, pmem := MEM, pmemsize := of_nat (length MEM)\<rparr>)
      | Some name \<Rightarrow>
          (case fs name of
             None \<Rightarrow> Load_failed File_unreadable
           | Some bytes \<Rightarrow>
               if length bytes < 16 then Load_failed Short_header
               else
                 let h = read_header bytes; payload = drop 16 bytes in
                 if h_magic h \<noteq> MAGIC then Load_failed Bad_magic
                 else if \<not> 0 < h_memsize h then Load_aborted
                 else if h_memsize h \<noteq> MEM_SIZE then Load_failed Size_mismatch
                 else if h_pc h \<ge> h_memsize h then Load_failed Pc_beyond_memory
                 else if length payload < unat (h_memsize h) then Load_failed Short_payload
                 else Loaded (pcore\<lparr>pc := h_pc h, pmem := take (unat (h_memsize h)) payload,
                                     pmemsize := h_memsize h\<rparr>)))"

subsection \<open>The program\<close>

text \<open>
  \<^verbatim>\<open>main\<close> with the load and save file names that its arguments give, without \<^verbatim>\<open>-d\<close>. A run
  ends with an exit status, the message of a failed load if any, the files and the console;
  or it aborts, or its behaviour is undefined. \<open>None\<close> is a loop that never ends.
\<close>

datatype outcome = Exit nat "load_error option" files console | Abort | Undefined

definition main :: "string option \<Rightarrow> string option \<Rightarrow> files \<Rightarrow> console \<Rightarrow> outcome option" where
  "main loadfile savefile fs con =
     (case load_image Core1 loadfile fs of
        Load_aborted \<Rightarrow> Some Abort
      | Load_failed e \<Rightarrow> Some (Exit 1 (Some e) fs con)
      | Loaded p \<Rightarrow>
          (case resume_core (p, con) of
             None \<Rightarrow> None
           | Some (Inl Assertion_failed) \<Rightarrow> Some Abort
           | Some (Inl Undefined_behaviour) \<Rightarrow> Some Undefined
           | Some (Inr (p', con')) \<Rightarrow>
               (case save_image p' savefile fs of
                  Inl e \<Rightarrow> Some Undefined
                | Inr fs' \<Rightarrow> Some (Exit 0 None fs' con'))))"


subsection \<open>Example cores\<close>

text \<open>
  A core at the start of a 128-byte pool that begins with the given bytes, with the given
  registers and clear flags; and a console with nothing to read.
\<close>

definition example_core :: "u32 list \<Rightarrow> u8 list \<Rightarrow> PU" where
  "example_core regs prog =
     \<lparr>pc = 0, fr = 0, r = regs, pmem = prog @ replicate (128 - length prog) 0, pmemsize = 128\<rparr>"

definition quiet_console :: console where
  "quiet_console = \<lparr>stdin = [], stdout = [], isatty = False\<rparr>"

subsection \<open>Runs of bounded length\<close>

text \<open>
  The state of the loop of \<^verbatim>\<open>resume_core\<close> after at most \<open>n\<close> turns: the loop stops
  early at a fault or when it has halted.
\<close>

fun run_steps :: "nat \<Rightarrow> PU \<times> console \<Rightarrow> fault + (status \<times> PU \<times> console)" where
  "run_steps 0 st = Inr (RUNNING, st)"
| "run_steps (Suc n) st =
     (case step st of
        Inl e \<Rightarrow> Inl e
      | Inr (RUNNING, p, con) \<Rightarrow> run_steps n (p, con)
      | Inr (HALTED, p, con) \<Rightarrow> Inr (HALTED, p, con))"

text \<open>Every register holds a number below \<open>2^31\<close>.\<close>

definition regs_below_2_31 :: "PU \<Rightarrow> bool" where
  "regs_below_2_31 pcore = list_all (\<lambda>v. v < 2147483648) (r pcore)"

section \<open>Basic facts\<close>

lemma and_then_Inl [simp]: "and_then (Inl e) f = Inl e"
  by (simp add: and_then_def)

lemma and_then_Inr [simp]: "and_then (Inr v) f = f v"
  by (simp add: and_then_def)

lemma and_then_eq_Inr: "and_then m f = Inr x \<longleftrightarrow> (\<exists>v. m = Inr v \<and> f v = Inr x)"
  by (cases m) simp_all

lemma isnum_odd: "isnum e \<longleftrightarrow> odd e"
  by (simp add: isnum_def and_one_eq odd_iff_mod_2_eq_one)

lemma isnum_num_enc: "isnum (num_enc n)"
  by (simp add: isnum_odd num_enc_def)

lemma not_isnum_addr_enc: "\<not> isnum (addr_enc n)"
  by (simp add: isnum_odd addr_enc_def)

lemma half_mod: "(x::nat) mod (2 * m) div 2 = x div 2 mod m"
  by (simp add: mod_mult2_eq)

lemma addr_enc_div2: "addr_enc n div 2 = take_bit 31 n"
proof (rule word_unat_eq_iff [THEN iffD2])
  have "unat (addr_enc n div 2) = (unat n * 2) mod (2 * 2147483648) div 2"
    by (simp add: addr_enc_def unat_div unat_word_ariths)
  also have "\<dots> = unat n mod 2147483648" by (simp only: half_mod) simp
  also have "\<dots> = unat (take_bit 31 n)"
    by (simp add: take_bit_eq_mod unat_mod)
  finally show "unat (addr_enc n div 2) = unat (take_bit 31 n)" .
qed

lemma tonum_num_enc: "tonum (num_enc n) = take_bit 31 n"
proof (rule word_unat_eq_iff [THEN iffD2])
  have "unat (tonum (num_enc n)) = (unat n * 2 + 1) mod (2 * 2147483648) div 2"
    by (simp add: tonum_def num_enc_def drop_bit_eq_div unat_div unat_word_ariths mod_Suc_eq)
  also have "\<dots> = unat n mod 2147483648" by (simp only: half_mod) simp
  also have "\<dots> = unat (take_bit 31 n)"
    by (simp add: take_bit_eq_mod unat_mod)
  finally show "unat (tonum (num_enc n)) = unat (take_bit 31 n)" .
qed

lemma obj_read_num_enc: "obj_read p (num_enc n) = Inr (take_bit 31 n)"
  by (simp add: obj_read_def isnum_num_enc tonum_num_enc)


lemma fetch_Inr: "fetch p = Inr (b, p') \<Longrightarrow> p' = p\<lparr>pc := pc p + 1\<rparr>"
  by (auto simp add: fetch_def split: if_splits)

lemma setflag_fields [simp]:
  "r (setflag p e f) = r p" "pmem (setflag p e f) = pmem p" "pc (setflag p e f) = pc p"
  "pmemsize (setflag p e f) = pmemsize p"
  by (simp_all add: setflag_def)

lemma isflag_ZERO: "isflag p FL_ZERO \<longleftrightarrow> bit (fr p) 0"
  using and_exp_eq_0_iff_not_bit [of "fr p" 0] by (simp add: isflag_def FL_ZERO_def)

lemma isflag_CARRY: "isflag p FL_CARRY \<longleftrightarrow> bit (fr p) 1"
  using and_exp_eq_0_iff_not_bit [of "fr p" 1] by (simp add: isflag_def FL_CARRY_def)

lemma bit_fr_setflag:
  "n < 32 \<Longrightarrow> bit (fr (setflag p e (2 ^ m))) n \<longleftrightarrow> (if n = m then e else bit (fr p) n)"
  by (auto simp add: setflag_def bit_simps)

lemma bit_fr_setzf: "bit (fr (setzf p e)) n \<longleftrightarrow> (if n = 0 then e else bit (fr p) n)"
proof (cases "n < 32")
  case True
  then show ?thesis using bit_fr_setflag [of n p e 0] by (simp add: setzf_def FL_ZERO_def)
next
  case False
  then show ?thesis by (simp add: bit_word_iff_drop_bit_and not_less impossible_bit)
qed

lemma bit_fr_setcf: "bit (fr (setcf p e)) n \<longleftrightarrow> (if n = 1 then e else bit (fr p) n)"
proof (cases "n < 32")
  case True
  then show ?thesis using bit_fr_setflag [of n p e 1] by (simp add: setcf_def FL_CARRY_def)
next
  case False
  then show ?thesis by (simp add: not_less impossible_bit)
qed

lemma isflag_carry_set: "isflag (setzf (setcf p c) z) FL_CARRY \<longleftrightarrow> c"
  by (simp add: isflag_CARRY bit_fr_setzf bit_fr_setcf)

lemma isflag_zero_set: "isflag (setzf (setcf p c) z) FL_ZERO \<longleftrightarrow> z"
  by (simp add: isflag_ZERO bit_fr_setzf bit_fr_setcf)

lemma obj_write_num_enc:
  "\<not> isnum addr \<Longrightarrow> obj_write p addr (num_enc n) =
     (if addr div 2 < 16 then
        (if unat (addr div 2) < length (r p)
         then Inr (p\<lparr>r := (r p)[unat (addr div 2) := take_bit 31 n]\<rparr>)
         else Inl Undefined_behaviour)
      else
        (if unat (addr div 2) < length (pmem p)
         then Inr (p\<lparr>pmem := (pmem p)[unat (addr div 2) := ucast (take_bit 31 n)]\<rparr>)
         else Inl Undefined_behaviour))"
  by (simp add: obj_write_def obj_read_num_enc Let_def)

lemma obj_read_ref_in_range:
  "\<not> isnum addr \<Longrightarrow> obj_read p addr = Inr v \<Longrightarrow>
     (if addr div 2 < 16 then unat (addr div 2) < length (r p)
      else unat (addr div 2) < length (pmem p))"
  by (auto simp add: obj_read_def Let_def split: if_splits)


lemma obj_write_fr: "obj_write p addr e = Inr p' \<Longrightarrow> fr p' = fr p \<and> pc p' = pc p"
  by (auto simp add: obj_write_def Let_def and_then_eq_Inr split: if_splits)

lemma obj_read_setflag [simp]: "obj_read (setflag p e f) x = obj_read p x"
  by (simp add: obj_read_def Let_def)


lemma op_ADD_unfold:
  assumes "fetch pcore = Inr (expr, p1)" and "fetch p1 = Inr (addr, p2)"
      and "obj_read p2 addr = Inr old" and "obj_read p2 expr = Inr delta"
  shows "op_ADD pcore =
           obj_write (setzf (setcf p2 (old + delta < old)) (old + delta = 0)) addr
             (num_enc (old + delta))"
  by (simp add: op_ADD_def assms Let_def)



section \<open>Addition\<close>







section \<open>Subtraction\<close>

lemma uint_take_bit31:
  fixes w :: u32
  shows "uint (take_bit 31 w) = uint w mod 2147483648"
proof -
  have "uint (take_bit 31 w) = take_bit 31 (uint w)"
    by (simp only: unsigned_take_bit_eq)
  also have "\<dots> = uint w mod 2147483648"
    by (simp add: take_bit_eq_mod)
  finally show ?thesis .
qed

lemma uint_take_bit31_diff:
  fixes a b :: u32
  shows "uint (take_bit 31 (a - b)) = (uint a - uint b) mod 2147483648"
proof -
  have "uint (take_bit 31 (a - b)) = (uint a - uint b) mod 4294967296 mod 2147483648"
    by (simp only: uint_take_bit31 uint_word_ariths) simp
  also have "\<dots> = (uint a - uint b) mod 2147483648"
    by (rule mod_mod_cancel) simp
  finally show ?thesis .
qed

lemma uint_ucast_take_bit31:
  fixes w :: u32
  shows "uint (ucast (take_bit 31 w) :: u8) = uint w mod 256"
proof -
  have "uint (ucast (take_bit 31 w) :: u8) = take_bit 8 (uint (take_bit 31 w))"
    by (simp only: unsigned_ucast_eq) simp
  also have "\<dots> = uint w mod 2147483648 mod 256"
    by (simp only: uint_take_bit31) (simp add: take_bit_eq_mod)
  also have "\<dots> = uint w mod 256"
    by (rule mod_mod_cancel) simp
  finally show ?thesis .
qed

lemma uint_ucast_take_bit31_diff:
  fixes a b :: u32
  shows "uint (ucast (take_bit 31 (a - b)) :: u8) = (uint a - uint b) mod 256"
proof -
  have "uint (ucast (take_bit 31 (a - b)) :: u8) = (uint a - uint b) mod 4294967296 mod 256"
    by (simp only: uint_ucast_take_bit31 uint_word_ariths) simp
  also have "\<dots> = (uint a - uint b) mod 256"
    by (rule mod_mod_cancel) simp
  finally show ?thesis .
qed

lemma byte_diff_zero:
  fixes old delta :: u32
  assumes "old \<le> 255" "delta \<le> 255"
  shows "old - delta = 0 \<longleftrightarrow> (uint old - uint delta) mod 256 = 0"
proof -
  have a: "uint old \<le> 255" "uint delta \<le> 255" "0 \<le> uint old" "0 \<le> uint delta"
    using assms by (simp_all add: word_le_def)
  have "(uint old - uint delta) mod 256 = 0 \<longleftrightarrow> uint old = uint delta"
  proof
    assume "(uint old - uint delta) mod 256 = 0"
    then have "256 dvd uint old - uint delta" by (simp add: dvd_eq_mod_eq_0)
    then obtain k where k: "uint old - uint delta = 256 * k" by (auto simp add: dvd_def)
    with a have "k = 0" by arith
    with k show "uint old = uint delta" by simp
  qed simp
  moreover have "old - delta = 0 \<longleftrightarrow> old = delta" by simp
  moreover have "old = delta \<longleftrightarrow> uint old = uint delta" by (rule word_uint_eq_iff)
  ultimately show ?thesis by (simp only:)
qed

lemma op_SUB_unfold:
  assumes "fetch pcore = Inr (expr, p1)" and "fetch p1 = Inr (addr, p2)"
      and "obj_read p2 addr = Inr old" and "obj_read p2 expr = Inr delta"
  shows "op_SUB pcore =
           obj_write (setzf (setcf p2 (old - delta > old)) (old - delta = 0)) addr
             (num_enc (old - delta))"
  by (simp add: op_SUB_def assms Let_def)

text \<open>
  Claim C4, as the code has it. \<^verbatim>\<open>op_SUB\<close> subtracts in 32 bits and writes the difference
  back through \<^verbatim>\<open>num_\<close>, which keeps its low 31 bits. For operands from 0 to 255, a register
  destination receives \<open>(old - delta) mod 2^31\<close>, a destination in the pool receives
  \<open>(old - delta) mod 256\<close>, CARRY is set exactly when \<open>delta > old\<close>, and ZERO exactly
  when \<open>(old - delta) mod 256 = 0\<close>.
\<close>

theorem op_SUB_byte_operands:
  assumes "fetch pcore = Inr (expr, p1)" and "fetch p1 = Inr (addr, p2)"
      and "obj_read p2 addr = Inr old" and "obj_read p2 expr = Inr delta"
      and "\<not> isnum addr" and "old \<le> 255" and "delta \<le> 255"
  shows "\<exists>p'. op_SUB pcore = Inr p' \<and>
           (addr div 2 < 16 \<longrightarrow>
              uint (r p' ! unat (addr div 2)) = (uint old - uint delta) mod 2147483648) \<and>
           (16 \<le> addr div 2 \<longrightarrow>
              uint (pmem p' ! unat (addr div 2)) = (uint old - uint delta) mod 256) \<and>
           (isflag p' FL_CARRY \<longleftrightarrow> delta > old) \<and>
           (isflag p' FL_ZERO \<longleftrightarrow> (uint old - uint delta) mod 256 = 0)"
proof -
  let ?new = "old - delta"
  let ?p4 = "setzf (setcf p2 (?new > old)) (?new = 0)"
  have carry: "?new > old \<longleftrightarrow> delta > old"
    by (rule sub_wrap_lt)
  have zero: "?new = 0 \<longleftrightarrow> (uint old - uint delta) mod 256 = 0"
    using assms(6,7) by (rule byte_diff_zero)
  have range: "if addr div 2 < 16 then unat (addr div 2) < length (r p2)
               else unat (addr div 2) < length (pmem p2)"
    using obj_read_ref_in_range [OF assms(5,3)] .
  have run: "op_SUB pcore = obj_write ?p4 addr (num_enc ?new)"
    using op_SUB_unfold [OF assms(1-4)] .
  show ?thesis
  proof (cases "addr div 2 < 16")
    case True
    with range have len: "unat (addr div 2) < length (r p2)" by simp
    let ?p' = "?p4\<lparr>r := (r ?p4)[unat (addr div 2) := take_bit 31 ?new]\<rparr>"
    have "op_SUB pcore = Inr ?p'"
      using True len assms(5) by (simp add: run obj_write_num_enc setzf_def setcf_def)
    moreover have "uint (r ?p' ! unat (addr div 2)) = (uint old - uint delta) mod 2147483648"
      using len by (simp add: setzf_def setcf_def uint_take_bit31_diff)
    moreover have "isflag ?p' FL_CARRY \<longleftrightarrow> delta > old"
      using isflag_carry_set [of p2 "?new > old" "?new = 0"] carry
      by (simp add: isflag_def)
    moreover have "isflag ?p' FL_ZERO \<longleftrightarrow> (uint old - uint delta) mod 256 = 0"
      using isflag_zero_set [of p2 "?new > old" "?new = 0"] zero
      by (simp add: isflag_def)
    moreover have "\<not> 16 \<le> addr div 2"
      using True by (simp only: not_le)
    ultimately show ?thesis by simp
  next
    case False
    with range have len: "unat (addr div 2) < length (pmem p2)" by simp
    let ?p' = "?p4\<lparr>pmem := (pmem ?p4)[unat (addr div 2) := ucast (take_bit 31 ?new)]\<rparr>"
    have "op_SUB pcore = Inr ?p'"
      using False len assms(5) by (simp add: run obj_write_num_enc setzf_def setcf_def)
    moreover have "uint (pmem ?p' ! unat (addr div 2)) = (uint old - uint delta) mod 256"
      using len by (simp add: setzf_def setcf_def uint_ucast_take_bit31_diff)
    moreover have "isflag ?p' FL_CARRY \<longleftrightarrow> delta > old"
      using isflag_carry_set [of p2 "?new > old" "?new = 0"] carry
      by (simp add: isflag_def)
    moreover have "isflag ?p' FL_ZERO \<longleftrightarrow> (uint old - uint delta) mod 256 = 0"
      using isflag_zero_set [of p2 "?new > old" "?new = 0"] zero
      by (simp add: isflag_def)
    ultimately show ?thesis using False by simp
  qed
qed

text \<open>
  The theorem at \<^verbatim>\<open>SUB num_(5), R0\<close> with 3 in register 0, and at \<^verbatim>\<open>SUB num_(5), addr_(20)\<close>
  with 3 in the pool at 20: the register becomes 2147483646, the byte 254, both with CARRY
  set and ZERO clear.
\<close>

theorem op_SUB_byte_operands_witness:
  "(\<exists>p'. op_SUB (example_core [3, 0, 0, 0, 0, 0, 0, 0] [3, 11, 0]\<lparr>pc := 1\<rparr>) = Inr p' \<and>
      uint (r p' ! 0) = 2147483646 \<and> isflag p' FL_CARRY \<and> \<not> isflag p' FL_ZERO) \<and>
   (\<exists>p'. op_SUB (example_core [0, 0, 0, 0, 0, 0, 0, 0] ([3, 11, 40] @ replicate 17 0 @ [3])
               \<lparr>pc := 1\<rparr>) = Inr p' \<and>
      uint (pmem p' ! 20) = 254 \<and> isflag p' FL_CARRY \<and> \<not> isflag p' FL_ZERO)"
proof -
  let ?a = "example_core [3, 0, 0, 0, 0, 0, 0, 0] [3, 11, 0]\<lparr>pc := 1\<rparr>"
  have a1: "fetch ?a = Inr (11, ?a\<lparr>pc := 2\<rparr>)"
    by (simp add: fetch_def example_core_def)
  have a2: "fetch (?a\<lparr>pc := 2\<rparr>) = Inr (0, ?a\<lparr>pc := 3\<rparr>)"
    by (simp add: fetch_def example_core_def)
  have a3: "obj_read (?a\<lparr>pc := 3\<rparr>) 0 = Inr 3"
    by (simp add: obj_read_def example_core_def isnum_def)
  have a4: "obj_read (?a\<lparr>pc := 3\<rparr>) 11 = Inr 5"
    by (simp add: obj_read_def isnum_def tonum_def drop_bit_eq_div)
  have a5: "\<not> isnum 0" by (simp add: isnum_def)
  let ?b = "example_core [0, 0, 0, 0, 0, 0, 0, 0] ([3, 11, 40] @ replicate 17 0 @ [3])
              \<lparr>pc := 1\<rparr>"
  have b1: "fetch ?b = Inr (11, ?b\<lparr>pc := 2\<rparr>)"
    by (simp add: fetch_def example_core_def)
  have b2: "fetch (?b\<lparr>pc := 2\<rparr>) = Inr (40, ?b\<lparr>pc := 3\<rparr>)"
    by (simp add: fetch_def example_core_def)
  have b3: "obj_read (?b\<lparr>pc := 3\<rparr>) 40 = Inr 3"
    by (simp add: obj_read_def example_core_def isnum_def nth_append)
  have b4: "obj_read (?b\<lparr>pc := 3\<rparr>) 11 = Inr 5"
    by (simp add: obj_read_def isnum_def tonum_def drop_bit_eq_div)
  have b5: "\<not> isnum 40" by (simp add: isnum_def)
  show ?thesis
    using op_SUB_byte_operands [OF a1 a2 a3 a4 a5] op_SUB_byte_operands [OF b1 b2 b3 b4 b5]
    by simp
qed

text \<open>
  Claim C4 as stated fails at its own scenario: with 3 in register 0, \<^verbatim>\<open>SUB num_(5), R0\<close>
  leaves 2147483646 in the register, not 254.
\<close>

theorem op_SUB_register_not_254:
  "op_SUB (example_core [3, 0, 0, 0, 0, 0, 0, 0] [3, 11, 0]\<lparr>pc := 1\<rparr>) =
     Inr (example_core [2147483646, 0, 0, 0, 0, 0, 0, 0] [3, 11, 0]\<lparr>pc := 3, fr := 2\<rparr>) \<and>
   (2147483646 :: u32) \<noteq> 254"
  by (simp add: op_SUB_def example_core_def fetch_def obj_read_def obj_write_def isnum_def
      tonum_def num_enc_def setcf_def setzf_def setflag_def FL_ZERO_def FL_CARRY_def
      drop_bit_eq_div)

section \<open>The indexed load \<^verbatim>\<open>AT\<close>\<close>

lemma obj_read_addr_enc:
  "obj_read p (addr_enc n) =
     (if take_bit 31 n < 16 then
        (if unat (take_bit 31 n) < length (r p) then Inr (r p ! unat (take_bit 31 n))
         else Inl Undefined_behaviour)
      else
        (if unat (take_bit 31 n) < length (pmem p)
         then Inr (ucast (pmem p ! unat (take_bit 31 n)))
         else Inl Undefined_behaviour))"
  by (simp add: obj_read_def not_isnum_addr_enc addr_enc_div2 Let_def)

text \<open>
  Claim C5, as the code has it. \<^verbatim>\<open>op_AT\<close> reads the number \<open>n\<close> that its first operand
  refers to, and passes \<^verbatim>\<open>addr_(n)\<close> to \<^verbatim>\<open>obj_write\<close> as the expression to store.
  \<^verbatim>\<open>obj_write\<close> resolves that expression with \<^verbatim>\<open>obj_read\<close>, so what reaches the destination
  is the value \<open>v\<close> stored at index \<open>n\<close> (register \<open>n\<close>, or byte \<open>n\<close> of the pool), not the
  encoded address \<open>2 * n\<close>.
\<close>

theorem op_AT_stores_value_at_index:
  assumes "fetch pcore = Inr (ixreg, p1)" and "fetch p1 = Inr (addr, p2)"
      and "\<not> isnum ixreg" and "\<not> isnum addr"
      and "obj_read p2 ixreg = Inr n" and "obj_read p2 (addr_enc n) = Inr v"
      and "obj_read p2 addr = Inr w"
  shows "\<exists>p'. op_AT pcore = Inr p' \<and>
           (addr div 2 < 16 \<longrightarrow> r p' ! unat (addr div 2) = v) \<and>
           (16 \<le> addr div 2 \<longrightarrow> pmem p' ! unat (addr div 2) = ucast v) \<and>
           v = (if take_bit 31 n < 16 then r p2 ! unat (take_bit 31 n)
                else ucast (pmem p2 ! unat (take_bit 31 n)))"
proof -
  have range: "if addr div 2 < 16 then unat (addr div 2) < length (r p2)
               else unat (addr div 2) < length (pmem p2)"
    using obj_read_ref_in_range [OF assms(4,7)] .
  have val: "v = (if take_bit 31 n < 16 then r p2 ! unat (take_bit 31 n)
                  else ucast (pmem p2 ! unat (take_bit 31 n)))"
    using assms(6) by (auto simp add: obj_read_addr_enc split: if_splits)
  have run: "op_AT pcore = obj_write p2 addr (addr_enc n)"
    by (simp add: op_AT_def assms)
  show ?thesis
  proof (cases "addr div 2 < 16")
    case True
    with range have len: "unat (addr div 2) < length (r p2)" by simp
    have "op_AT pcore = Inr (p2\<lparr>r := (r p2)[unat (addr div 2) := v]\<rparr>)"
      using True len assms(4,6) by (simp add: run obj_write_def Let_def)
    moreover have "\<not> 16 \<le> addr div 2"
      using True by (simp only: not_le)
    ultimately show ?thesis using len val by simp
  next
    case False
    with range have len: "unat (addr div 2) < length (pmem p2)" by simp
    have "op_AT pcore = Inr (p2\<lparr>pmem := (pmem p2)[unat (addr div 2) := ucast v]\<rparr>)"
      using False len assms(4,6) by (simp add: run obj_write_def Let_def)
    then show ?thesis using False len val by simp
  qed
qed

text \<open>
  The theorem at \<^verbatim>\<open>AT R0, R1\<close> with 20 in register 0 and 77 in the pool at 20, and at
  \<^verbatim>\<open>AT R0, addr_(30)\<close> with 5 in register 0 and 9 in register 5.
\<close>

theorem op_AT_stores_value_at_index_witness:
  "(\<exists>p'. op_AT (example_core [20, 0, 0, 0, 0, 0, 0, 0] ([9, 0, 2] @ replicate 17 0 @ [77])
               \<lparr>pc := 1\<rparr>) = Inr p' \<and> r p' ! 1 = 77) \<and>
   (\<exists>p'. op_AT (example_core [5, 0, 0, 0, 0, 9, 0, 0] [9, 0, 60]\<lparr>pc := 1\<rparr>) = Inr p' \<and>
           pmem p' ! 30 = 9)"
proof -
  let ?a = "example_core [20, 0, 0, 0, 0, 0, 0, 0] ([9, 0, 2] @ replicate 17 0 @ [77])
              \<lparr>pc := 1\<rparr>"
  have a1: "fetch ?a = Inr (0, ?a\<lparr>pc := 2\<rparr>)"
    by (simp add: fetch_def example_core_def)
  have a2: "fetch (?a\<lparr>pc := 2\<rparr>) = Inr (2, ?a\<lparr>pc := 3\<rparr>)"
    by (simp add: fetch_def example_core_def)
  have a3: "\<not> isnum 0" and a4: "\<not> isnum 2" by (simp_all add: isnum_def)
  have a5: "obj_read (?a\<lparr>pc := 3\<rparr>) 0 = Inr 20"
    by (simp add: obj_read_def example_core_def isnum_def)
  have a6: "obj_read (?a\<lparr>pc := 3\<rparr>) (addr_enc 20) = Inr 77"
    by (simp add: obj_read_def example_core_def isnum_def addr_enc_def nth_append)
  have a7: "obj_read (?a\<lparr>pc := 3\<rparr>) 2 = Inr 0"
    by (simp add: obj_read_def example_core_def isnum_def)
  let ?b = "example_core [5, 0, 0, 0, 0, 9, 0, 0] [9, 0, 60]\<lparr>pc := 1\<rparr>"
  have b1: "fetch ?b = Inr (0, ?b\<lparr>pc := 2\<rparr>)"
    by (simp add: fetch_def example_core_def)
  have b2: "fetch (?b\<lparr>pc := 2\<rparr>) = Inr (60, ?b\<lparr>pc := 3\<rparr>)"
    by (simp add: fetch_def example_core_def)
  have b4: "\<not> isnum 60" by (simp add: isnum_def)
  have b5: "obj_read (?b\<lparr>pc := 3\<rparr>) 0 = Inr 5"
    by (simp add: obj_read_def example_core_def isnum_def)
  have b6: "obj_read (?b\<lparr>pc := 3\<rparr>) (addr_enc 5) = Inr 9"
    by (simp add: obj_read_def example_core_def isnum_def addr_enc_def)
  have b7: "obj_read (?b\<lparr>pc := 3\<rparr>) 60 = Inr 0"
    by (simp add: obj_read_def example_core_def isnum_def nth_append)
  show ?thesis
    using op_AT_stores_value_at_index [OF a1 a2 a3 a4 a5 a6 a7]
      op_AT_stores_value_at_index [OF b1 b2 a3 b4 b5 b6 b7]
    by auto
qed

text \<open>
  Claim C5 as stated fails: with 20 in register 0 and 77 in the pool at 20, \<^verbatim>\<open>AT R0, R1\<close>
  leaves 77 in register 1, the value stored at index 20, and not the encoded address 40.
\<close>

theorem op_AT_not_encoded_address:
  "op_AT (example_core [20, 0, 0, 0, 0, 0, 0, 0] ([9, 0, 2] @ replicate 17 0 @ [77])
            \<lparr>pc := 1\<rparr>) =
     Inr (example_core [20, 77, 0, 0, 0, 0, 0, 0] ([9, 0, 2] @ replicate 17 0 @ [77])
            \<lparr>pc := 3\<rparr>) \<and>
   (77 :: u32) \<noteq> addr_enc 20"
  by (simp add: op_AT_def example_core_def fetch_def obj_read_def obj_write_def isnum_def
      addr_enc_def nth_append)

section \<open>Which handlers write the flags\<close>

lemma fetch_fr: "fetch p = Inr (b, p') \<Longrightarrow> fr p' = fr p"
  by (auto simp add: fetch_def split: if_splits)

lemma op_MOV_fr: "op_MOV p = Inr p' \<Longrightarrow> fr p' = fr p"
  by (auto simp add: op_MOV_def and_then_eq_Inr dest!: fetch_fr obj_write_fr)

lemma op_ATP_fr: "op_ATP p = Inr p' \<Longrightarrow> fr p' = fr p"
  by (auto simp add: op_ATP_def and_then_eq_Inr dest!: fetch_fr obj_write_fr split: if_splits)

lemma op_AT_fr: "op_AT p = Inr p' \<Longrightarrow> fr p' = fr p"
  by (auto simp add: op_AT_def and_then_eq_Inr dest!: fetch_fr obj_write_fr split: if_splits)

lemma op_JIF_fr: "op_JIF p = Inr p' \<Longrightarrow> fr p' = fr p"
  by (auto simp add: op_JIF_def and_then_eq_Inr dest!: fetch_fr split: if_splits)

lemma op_JMR_fr: "op_JMR p = Inr p' \<Longrightarrow> fr p' = fr p"
  by (auto simp add: op_JMR_def and_then_eq_Inr dest!: fetch_fr)

lemma op_MPC_fr: "op_MPC p = Inr p' \<Longrightarrow> fr p' = fr p"
  by (auto simp add: op_MPC_def and_then_eq_Inr dest!: fetch_fr obj_write_fr)

lemma op_IN_result:
  assumes "op_IN p con = Inr (p', con')"
  shows "\<exists>ch p1 addr p2 inp.
           fetch p = Inr (ch, p1) \<and> fetch p1 = Inr (addr, p2) \<and>
           getinp con ch = (inp, con') \<and> obj_write p2 addr (num_enc inp) = Inr p'"
proof -
  from assms obtain ch p1 addr p2
    where f: "fetch p = Inr (ch, p1)" "fetch p1 = Inr (addr, p2)"
      and w: "(case getinp con ch of (inp, con1) \<Rightarrow>
                 and_then (obj_write p2 addr (num_enc inp)) (\<lambda>p3. Inr (p3, con1))) =
              Inr (p', con')"
    by (auto simp add: op_IN_def and_then_eq_Inr)
  obtain inp con1 where g: "getinp con ch = (inp, con1)"
    by (cases "getinp con ch")
  with w have "obj_write p2 addr (num_enc inp) = Inr p'" "con1 = con'"
    by (auto simp add: and_then_eq_Inr)
  with f g show ?thesis by auto
qed

lemma op_IN_fr: "op_IN p con = Inr (p', con') \<Longrightarrow> fr p' = fr p"
  by (auto dest!: op_IN_result fetch_fr obj_write_fr)

lemma op_OUT_fr: "op_OUT p con = Inr (p', con') \<Longrightarrow> fr p' = fr p"
  by (auto simp add: op_OUT_def and_then_eq_Inr dest!: fetch_fr)

lemma obj_write_num_enc_returns:
  assumes "\<not> isnum addr" and "obj_read p addr = Inr w"
  shows "\<exists>p'. obj_write p addr (num_enc n) = Inr p' \<and> fr p' = fr p"
proof -
  from obj_read_ref_in_range [OF assms]
  have "if addr div 2 < 16 then unat (addr div 2) < length (r p)
        else unat (addr div 2) < length (pmem p)" .
  with assms(1) show ?thesis
    by (cases "addr div 2 < 16") (simp_all add: obj_write_num_enc)
qed

lemma op_ADD_writes_flags:
  assumes "fetch pcore = Inr (expr, p1)" and "fetch p1 = Inr (addr, p2)"
      and "obj_read p2 addr = Inr old" and "obj_read p2 expr = Inr delta"
      and "\<not> isnum addr"
  shows "\<exists>p'. op_ADD pcore = Inr p' \<and>
           (isflag p' FL_CARRY \<longleftrightarrow> old + delta < old) \<and>
           (isflag p' FL_ZERO \<longleftrightarrow> old + delta = 0)"
proof -
  let ?p4 = "setzf (setcf p2 (old + delta < old)) (old + delta = 0)"
  have "obj_read ?p4 addr = Inr old"
    using assms(3) by (simp add: setzf_def setcf_def)
  from obj_write_num_enc_returns [OF assms(5) this, of "old + delta"]
  obtain p' where w: "obj_write ?p4 addr (num_enc (old + delta)) = Inr p'"
    and fr: "fr p' = fr ?p4" by blast
  from fr have "isflag p' FL_CARRY = isflag ?p4 FL_CARRY" "isflag p' FL_ZERO = isflag ?p4 FL_ZERO"
    by (simp_all add: isflag_def)
  with w op_ADD_unfold [OF assms(1-4)] show ?thesis
    by (simp add: isflag_carry_set isflag_zero_set)
qed

lemma op_SUB_writes_flags:
  assumes "fetch pcore = Inr (expr, p1)" and "fetch p1 = Inr (addr, p2)"
      and "obj_read p2 addr = Inr old" and "obj_read p2 expr = Inr delta"
      and "\<not> isnum addr"
  shows "\<exists>p'. op_SUB pcore = Inr p' \<and>
           (isflag p' FL_CARRY \<longleftrightarrow> old - delta > old) \<and>
           (isflag p' FL_ZERO \<longleftrightarrow> old - delta = 0)"
proof -
  let ?p4 = "setzf (setcf p2 (old - delta > old)) (old - delta = 0)"
  have "obj_read ?p4 addr = Inr old"
    using assms(3) by (simp add: setzf_def setcf_def)
  from obj_write_num_enc_returns [OF assms(5) this, of "old - delta"]
  obtain p' where w: "obj_write ?p4 addr (num_enc (old - delta)) = Inr p'"
    and fr: "fr p' = fr ?p4" by blast
  from fr have "isflag p' FL_CARRY = isflag ?p4 FL_CARRY" "isflag p' FL_ZERO = isflag ?p4 FL_ZERO"
    by (simp_all add: isflag_def)
  with w op_SUB_unfold [OF assms(1-4)] show ?thesis
    by (simp add: isflag_carry_set isflag_zero_set)
qed

lemma call_op_frame:
  assumes "call_op h pcore con = Inr (p', con')" and "h \<noteq> ADD" and "h \<noteq> SUB"
  shows "fr p' = fr pcore"
proof (cases h)
  case SUS
  with assms show ?thesis by (simp add: call_op_def op_SUS_def)
next
  case MOV
  with assms show ?thesis by (auto simp add: call_op_def and_then_eq_Inr dest: op_MOV_fr)
next
  case ADD
  with assms show ?thesis by simp
next
  case SUB
  with assms show ?thesis by simp
next
  case JIF
  with assms show ?thesis by (auto simp add: call_op_def and_then_eq_Inr dest: op_JIF_fr)
next
  case JMR
  with assms show ?thesis by (auto simp add: call_op_def and_then_eq_Inr dest: op_JMR_fr)
next
  case MPC
  with assms show ?thesis by (auto simp add: call_op_def and_then_eq_Inr dest: op_MPC_fr)
next
  case IN
  with assms show ?thesis by (auto simp add: call_op_def dest: op_IN_fr)
next
  case OUT
  with assms show ?thesis by (auto simp add: call_op_def dest: op_OUT_fr)
next
  case AT
  with assms show ?thesis by (auto simp add: call_op_def and_then_eq_Inr dest: op_AT_fr)
next
  case ATP
  with assms show ?thesis by (auto simp add: call_op_def and_then_eq_Inr dest: op_ATP_fr)
qed

text \<open>
  Claim C10. When its two operand bytes can be fetched, both operands can be read and the
  destination is a reference, \<^verbatim>\<open>op_ADD\<close> returns, and in the core it returns CARRY is set
  exactly when the 32-bit sum has wrapped and ZERO exactly when the sum is 0, whatever the
  flags were before; the same holds of \<^verbatim>\<open>op_SUB\<close> with the 32-bit difference. A handler
  other than these two that returns leaves the flags register as it was.
\<close>

theorem flags_written_by_ADD_and_SUB_only:
  "(fetch pcore = Inr (expr, p1) \<and> fetch p1 = Inr (addr, p2) \<and>
    obj_read p2 addr = Inr old \<and> obj_read p2 expr = Inr delta \<and> \<not> isnum addr \<longrightarrow>
      (\<exists>p'. op_ADD pcore = Inr p' \<and> call_op ADD pcore con = Inr (p', con) \<and>
         (isflag p' FL_CARRY \<longleftrightarrow> old + delta < old) \<and>
         (isflag p' FL_ZERO \<longleftrightarrow> old + delta = 0)) \<and>
      (\<exists>p'. op_SUB pcore = Inr p' \<and> call_op SUB pcore con = Inr (p', con) \<and>
         (isflag p' FL_CARRY \<longleftrightarrow> old - delta > old) \<and>
         (isflag p' FL_ZERO \<longleftrightarrow> old - delta = 0))) \<and>
   (h \<noteq> ADD \<and> h \<noteq> SUB \<and> call_op h q c = Inr (q', c') \<longrightarrow> fr q' = fr q)"
proof (intro conjI impI)
  assume a: "fetch pcore = Inr (expr, p1) \<and> fetch p1 = Inr (addr, p2) \<and>
    obj_read p2 addr = Inr old \<and> obj_read p2 expr = Inr delta \<and> \<not> isnum addr"
  then have f: "fetch pcore = Inr (expr, p1)" "fetch p1 = Inr (addr, p2)"
    and rd: "obj_read p2 addr = Inr old" "obj_read p2 expr = Inr delta"
    and ref: "\<not> isnum addr" by simp_all
  from op_ADD_writes_flags [OF f rd ref]
  show "\<exists>p'. op_ADD pcore = Inr p' \<and> call_op ADD pcore con = Inr (p', con) \<and>
         (isflag p' FL_CARRY \<longleftrightarrow> old + delta < old) \<and>
         (isflag p' FL_ZERO \<longleftrightarrow> old + delta = 0)"
    by (auto simp add: call_op_def)
  from op_SUB_writes_flags [OF f rd ref]
  show "\<exists>p'. op_SUB pcore = Inr p' \<and> call_op SUB pcore con = Inr (p', con) \<and>
         (isflag p' FL_CARRY \<longleftrightarrow> old - delta > old) \<and>
         (isflag p' FL_ZERO \<longleftrightarrow> old - delta = 0)"
    by (auto simp add: call_op_def)
next
  assume "h \<noteq> ADD \<and> h \<noteq> SUB \<and> call_op h q c = Inr (q', c')"
  then show "fr q' = fr q" by (auto dest: call_op_frame)
qed

text \<open>
  The theorem at \<^verbatim>\<open>num_(1), R0\<close> with 1 in register 0 and both flags set: \<^verbatim>\<open>op_ADD\<close> returns with
  both flags clear, \<^verbatim>\<open>op_SUB\<close> with ZERO alone. And at one instruction of each of the nine
  other handlers, started with both flags set (CARRY alone for \<^verbatim>\<open>JIF\<close>, which then jumps):
  each returns with the flags register as it was.
\<close>

theorem flags_written_by_ADD_and_SUB_only_witness:
  "(\<exists>p'. op_ADD (example_core [1, 0, 0, 0, 0, 0, 0, 0] [2, 3, 0]\<lparr>pc := 1, fr := 3\<rparr>) = Inr p' \<and>
      \<not> isflag p' FL_CARRY \<and> \<not> isflag p' FL_ZERO) \<and>
   (\<exists>p'. op_SUB (example_core [1, 0, 0, 0, 0, 0, 0, 0] [2, 3, 0]\<lparr>pc := 1, fr := 3\<rparr>) = Inr p' \<and>
      \<not> isflag p' FL_CARRY \<and> isflag p' FL_ZERO) \<and>
   (\<exists>p' c'. call_op SUS (example_core [1, 0, 0, 0, 0, 0, 0, 0] [0]\<lparr>pc := 1, fr := 3\<rparr>)
        quiet_console = Inr (p', c') \<and> fr p' = 3) \<and>
   (\<exists>p' c'. call_op MOV (example_core [1, 0, 0, 0, 0, 0, 0, 0] [1, 11, 0]\<lparr>pc := 1, fr := 3\<rparr>)
        quiet_console = Inr (p', c') \<and> fr p' = 3) \<and>
   (\<exists>p' c'. call_op JIF (example_core [1, 0, 0, 0, 0, 0, 0, 0] [4, 1, 11]\<lparr>pc := 1, fr := 2\<rparr>)
        quiet_console = Inr (p', c') \<and> fr p' = 2) \<and>
   (\<exists>p' c'. call_op JMR (example_core [9, 0, 0, 0, 0, 0, 0, 0] [5, 0]\<lparr>pc := 1, fr := 3\<rparr>)
        quiet_console = Inr (p', c') \<and> fr p' = 3) \<and>
   (\<exists>p' c'. call_op MPC (example_core [1, 0, 0, 0, 0, 0, 0, 0] [6, 0]\<lparr>pc := 1, fr := 3\<rparr>)
        quiet_console = Inr (p', c') \<and> fr p' = 3) \<and>
   (\<exists>p' c'. call_op IN (example_core [1, 0, 0, 0, 0, 0, 0, 0] [7, 1, 2]\<lparr>pc := 1, fr := 3\<rparr>)
        (quiet_console\<lparr>stdin := [1000]\<rparr>) = Inr (p', c') \<and> fr p' = 3) \<and>
   (\<exists>p' c'. call_op OUT (example_core [9, 0, 0, 0, 0, 0, 0, 0] [8, 1, 0]\<lparr>pc := 1, fr := 3\<rparr>)
        quiet_console = Inr (p', c') \<and> fr p' = 3) \<and>
   (\<exists>p' c'. call_op AT (example_core [5, 0, 0, 0, 0, 9, 0, 0] [9, 0, 2]\<lparr>pc := 1, fr := 3\<rparr>)
        quiet_console = Inr (p', c') \<and> fr p' = 3) \<and>
   (\<exists>p' c'. call_op ATP (example_core [5, 0, 0, 0, 0, 9, 0, 0] [10, 11, 0]\<lparr>pc := 1, fr := 3\<rparr>)
        quiet_console = Inr (p', c') \<and> fr p' = 3)"
proof -
  note total = flags_written_by_ADD_and_SUB_only [THEN conjunct1, THEN mp]
  note frame = flags_written_by_ADD_and_SUB_only [THEN conjunct2, THEN mp]
  let ?a = "example_core [1, 0, 0, 0, 0, 0, 0, 0] [2, 3, 0]\<lparr>pc := 1, fr := 3\<rparr>"
  have "fetch ?a = Inr (3, ?a\<lparr>pc := 2\<rparr>) \<and> fetch (?a\<lparr>pc := 2\<rparr>) = Inr (0, ?a\<lparr>pc := 3\<rparr>) \<and>
        obj_read (?a\<lparr>pc := 3\<rparr>) 0 = Inr 1 \<and> obj_read (?a\<lparr>pc := 3\<rparr>) 3 = Inr 1 \<and> \<not> isnum 0"
    by (simp add: fetch_def example_core_def obj_read_def isnum_def tonum_def drop_bit_eq_div)
  from total [OF this]
  have arith: "(\<exists>p'. op_ADD ?a = Inr p' \<and> \<not> isflag p' FL_CARRY \<and> \<not> isflag p' FL_ZERO) \<and>
               (\<exists>p'. op_SUB ?a = Inr p' \<and> \<not> isflag p' FL_CARRY \<and> isflag p' FL_ZERO)"
    by auto
  have keeps: "\<exists>p' c'. call_op h q c = Inr (p', c') \<and> fr p' = fr q"
    if "h \<noteq> ADD" and "h \<noteq> SUB" and "\<exists>p' c'. call_op h q c = Inr (p', c')" for h q c
  proof -
    from that(3) obtain p' c' where "call_op h q c = Inr (p', c')" by blast
    moreover from this that(1,2) have "fr p' = fr q"
      by (intro frame) simp
    ultimately show ?thesis by blast
  qed
  have sus: "\<exists>p' c'. call_op SUS (example_core [1, 0, 0, 0, 0, 0, 0, 0] [0]\<lparr>pc := 1, fr := 3\<rparr>)
               quiet_console = Inr (p', c')"
    by (simp add: call_op_def op_SUS_def)
  have mov: "\<exists>p' c'. call_op MOV (example_core [1, 0, 0, 0, 0, 0, 0, 0] [1, 11, 0]\<lparr>pc := 1, fr := 3\<rparr>)
               quiet_console = Inr (p', c')"
    by (simp add: call_op_def op_MOV_def example_core_def fetch_def obj_read_def obj_write_def
        isnum_def tonum_def drop_bit_eq_div)
  have jif: "\<exists>p' c'. call_op JIF (example_core [1, 0, 0, 0, 0, 0, 0, 0] [4, 1, 11]\<lparr>pc := 1, fr := 2\<rparr>)
               quiet_console = Inr (p', c')"
    by (simp add: call_op_def op_JIF_def example_core_def fetch_def obj_read_def isflag_def
        isnum_def tonum_def drop_bit_eq_div)
  have jmr: "\<exists>p' c'. call_op JMR (example_core [9, 0, 0, 0, 0, 0, 0, 0] [5, 0]\<lparr>pc := 1, fr := 3\<rparr>)
               quiet_console = Inr (p', c')"
    by (simp add: call_op_def op_JMR_def example_core_def fetch_def obj_read_def isnum_def)
  have mpc: "\<exists>p' c'. call_op MPC (example_core [1, 0, 0, 0, 0, 0, 0, 0] [6, 0]\<lparr>pc := 1, fr := 3\<rparr>)
               quiet_console = Inr (p', c')"
    by (simp add: call_op_def op_MPC_def example_core_def fetch_def obj_read_def obj_write_def
        isnum_def tonum_def num_enc_def drop_bit_eq_div)
  have inp: "\<exists>p' c'. call_op IN (example_core [1, 0, 0, 0, 0, 0, 0, 0] [7, 1, 2]\<lparr>pc := 1, fr := 3\<rparr>)
               (quiet_console\<lparr>stdin := [1000]\<rparr>) = Inr (p', c')"
    by (simp add: call_op_def op_IN_def example_core_def fetch_def obj_read_def obj_write_def
        getinp_def IO_CHR_def IO_NUM_def quiet_console_def isnum_def tonum_def num_enc_def
        drop_bit_eq_div)
  have out: "\<exists>p' c'. call_op OUT (example_core [9, 0, 0, 0, 0, 0, 0, 0] [8, 1, 0]\<lparr>pc := 1, fr := 3\<rparr>)
               quiet_console = Inr (p', c')"
    by (simp add: call_op_def op_OUT_def example_core_def fetch_def obj_read_def isnum_def)
  have at: "\<exists>p' c'. call_op AT (example_core [5, 0, 0, 0, 0, 9, 0, 0] [9, 0, 2]\<lparr>pc := 1, fr := 3\<rparr>)
              quiet_console = Inr (p', c')"
    by (simp add: call_op_def op_AT_def example_core_def fetch_def obj_read_def obj_write_def
        isnum_def addr_enc_def)
  have atp: "\<exists>p' c'. call_op ATP (example_core [5, 0, 0, 0, 0, 9, 0, 0] [10, 11, 0]\<lparr>pc := 1, fr := 3\<rparr>)
               quiet_console = Inr (p', c')"
    by (simp add: call_op_def op_ATP_def example_core_def fetch_def obj_read_def obj_write_def
        isnum_def tonum_def addr_enc_def drop_bit_eq_div)
  show ?thesis
    using arith keeps [OF _ _ sus] keeps [OF _ _ mov] keeps [OF _ _ jif] keeps [OF _ _ jmr]
      keeps [OF _ _ mpc] keeps [OF _ _ inp] keeps [OF _ _ out] keeps [OF _ _ at]
      keeps [OF _ _ atp]
    by simp
qed

section \<open>Opcodes without a handler\<close>

lemma Core1_op_length: "length Core1_op = 32"
  by (simp add: Core1_op_def)

lemma Core1_op_null: "11 \<le> n \<Longrightarrow> n < 32 \<Longrightarrow> Core1_op ! n = None"
  by (simp add: Core1_op_def nth_append)

text \<open>
  A byte from 11 to 31 at the program counter selects a null entry of the table, and the
  loop ends with nothing changed but the program counter.
\<close>

lemma step_null_handler_halts:
  assumes "fetch pcore = Inr (icode, p1)" and "11 \<le> unat icode" and "unat icode < 32"
  shows "step (pcore, con) = Inr (HALTED, pcore\<lparr>pc := pc pcore + 1\<rparr>, con)"
  using assms fetch_Inr [OF assms(1)]
  by (simp add: step_def Core1_op_length Core1_op_null)

text \<open>A byte of 32 or more indexes the table of 32 handlers beyond its end.\<close>

lemma step_beyond_table:
  assumes "fetch pcore = Inr (icode, p1)" and "32 \<le> unat icode"
  shows "step (pcore, con) = Inl Undefined_behaviour"
  using assms by (simp add: step_def Core1_op_length)

text \<open>
  Claim C6 at the bytes 31 and 32. With 31 at the program counter the step halts and only
  the program counter has moved. With 32 there, a byte that has no handler either,
  \<^verbatim>\<open>resume_core\<close> reads \<^verbatim>\<open>op[32]\<close>, one entry past the end of the table: the step does not
  halt the machine, its behaviour is undefined.
\<close>

theorem step_opcode_32_outside_table:
  "step (example_core [0, 0, 0, 0, 0, 0, 0, 0] [31], quiet_console) =
     Inr (HALTED, example_core [0, 0, 0, 0, 0, 0, 0, 0] [31]\<lparr>pc := 1\<rparr>, quiet_console) \<and>
   step (example_core [0, 0, 0, 0, 0, 0, 0, 0] [32], quiet_console) = Inl Undefined_behaviour"
  by (simp add: step_def fetch_def example_core_def Core1_op_def)

section \<open>Which indices select a register\<close>

text \<open>
  A reference whose index is below 8 reads and writes that register; one whose index is
  16 or more reads and writes the pool.
\<close>

lemma obj_read_register:
  assumes "\<not> isnum expr" and "expr div 2 < 8" and "length (r pcore) = 8"
  shows "obj_read pcore expr = Inr (r pcore ! unat (expr div 2))"
proof -
  have "unat (expr div 2) < 8" using assms(2) by (simp add: word_less_nat_alt)
  moreover have "expr div 2 < 16" using assms(2) by (simp add: word_less_nat_alt)
  ultimately show ?thesis using assms by (simp add: obj_read_def Let_def)
qed

lemma obj_read_pool:
  assumes "\<not> isnum expr" and "16 \<le> expr div 2" and "unat (expr div 2) < length (pmem pcore)"
  shows "obj_read pcore expr = Inr (ucast (pmem pcore ! unat (expr div 2)))"
proof -
  have "\<not> expr div 2 < 16" using assms(2) by (simp only: not_less)
  then show ?thesis using assms by (simp add: obj_read_def Let_def)
qed

text \<open>
  A reference whose index is from 8 to 15 passes the test \<^verbatim>\<open>expr < 16\<close> and is used as an
  index into the array of 8 registers, whatever the pool holds at that index.
\<close>

lemma obj_read_past_registers:
  assumes "\<not> isnum expr" and "8 \<le> expr div 2" and "expr div 2 < 16"
      and "length (r pcore) = 8"
  shows "obj_read pcore expr = Inl Undefined_behaviour"
proof -
  have "\<not> unat (expr div 2) < 8" using assms(2) by (simp add: word_le_nat_alt)
  then show ?thesis using assms by (simp add: obj_read_def Let_def)
qed

lemma obj_write_past_registers:
  assumes "\<not> isnum addr" and "8 \<le> addr div 2" and "addr div 2 < 16"
      and "length (r pcore) = 8"
  shows "\<exists>e. obj_write pcore addr expr = Inl e"
proof -
  have "\<not> unat (addr div 2) < 8" using assms(2) by (simp add: word_le_nat_alt)
  then show ?thesis using assms
    by (cases "obj_read pcore expr") (simp_all add: obj_write_def Let_def)
qed

text \<open>
  Claim C3 at the reference byte 16, whose index is 8. The pool has a byte at index 8 (here
  the value 99), and the claim has the access go there. \<^verbatim>\<open>obj_read\<close> and \<^verbatim>\<open>obj_write\<close>
  go to \<^verbatim>\<open>r[8]\<close> instead, past the end of the register array. The reference byte 14, index
  7, reads register 7, and the byte 32, index 16, reads the pool.
\<close>

theorem obj_read_index_8_past_registers:
  "obj_read (example_core [0, 0, 0, 0, 0, 0, 0, 55] [0, 0, 0, 0, 0, 0, 0, 0, 99]) 16 =
     Inl Undefined_behaviour \<and>
   obj_write (example_core [0, 0, 0, 0, 0, 0, 0, 55] [0, 0, 0, 0, 0, 0, 0, 0, 99]) 16 3 =
     Inl Undefined_behaviour \<and>
   obj_read (example_core [0, 0, 0, 0, 0, 0, 0, 55] [0, 0, 0, 0, 0, 0, 0, 0, 99]) 14 = Inr 55 \<and>
   obj_read (example_core [0, 0, 0, 0, 0, 0, 0, 55] [0, 0, 0, 0, 0, 0, 0, 0, 99]) 32 = Inr 0 \<and>
   pmem (example_core [0, 0, 0, 0, 0, 0, 0, 55] [0, 0, 0, 0, 0, 0, 0, 0, 99]) ! 8 = 99"
  by (simp add: obj_read_def obj_write_def example_core_def isnum_def tonum_def
      drop_bit_eq_div nth_append)

section \<open>A literal where an address is expected\<close>

text \<open>
  The handlers that write through \<^verbatim>\<open>obj_write\<close>, and \<^verbatim>\<open>op_AT\<close> and \<^verbatim>\<open>op_ATP\<close> for their
  index operand, stop at an assertion when the address byte is a literal, so none of
  them returns.
\<close>

lemma obj_write_literal: "isnum addr \<Longrightarrow> obj_write pcore addr expr = Inl Assertion_failed"
  by (simp add: obj_write_def)

lemma op_MOV_literal_destination:
  assumes "fetch pcore = Inr (expr, p1)" and "fetch p1 = Inr (addr, p2)" and "isnum addr"
  shows "op_MOV pcore = Inl Assertion_failed"
  using assms by (simp add: op_MOV_def obj_write_literal)

lemma op_MPC_literal_destination:
  assumes "fetch pcore = Inr (addr, p1)" and "isnum addr"
  shows "op_MPC pcore = Inl Assertion_failed"
  using assms by (simp add: op_MPC_def obj_write_literal)

lemma op_IN_literal_destination:
  assumes "fetch pcore = Inr (ch, p1)" and "fetch p1 = Inr (addr, p2)" and "isnum addr"
  shows "op_IN pcore con = Inl Assertion_failed"
  using assms by (simp add: op_IN_def obj_write_literal split: prod.splits)

lemma op_AT_literal_operand:
  assumes "fetch pcore = Inr (ixreg, p1)" and "fetch p1 = Inr (addr, p2)"
      and "isnum ixreg \<or> isnum addr"
  shows "op_AT pcore = Inl Assertion_failed"
  using assms by (auto simp add: op_AT_def)

lemma op_ATP_literal_index:
  assumes "fetch pcore = Inr (expr, p1)" and "fetch p1 = Inr (ixreg, p2)" and "isnum ixreg"
  shows "op_ATP pcore = Inl Assertion_failed"
  using assms by (simp add: op_ATP_def)

lemma op_ADD_literal_destination:
  assumes "fetch pcore = Inr (expr, p1)" and "fetch p1 = Inr (addr, p2)" and "isnum addr"
  shows "\<exists>e. op_ADD pcore = Inl e"
proof (cases "obj_read p2 expr")
  case (Inl e)
  with assms show ?thesis by (simp add: op_ADD_def obj_read_def)
next
  case (Inr delta)
  with assms show ?thesis by (simp add: op_ADD_def obj_read_def Let_def obj_write_literal)
qed

lemma op_SUB_literal_destination:
  assumes "fetch pcore = Inr (expr, p1)" and "fetch p1 = Inr (addr, p2)" and "isnum addr"
  shows "\<exists>e. op_SUB pcore = Inl e"
proof (cases "obj_read p2 expr")
  case (Inl e)
  with assms show ?thesis by (simp add: op_SUB_def obj_read_def)
next
  case (Inr delta)
  with assms show ?thesis by (simp add: op_SUB_def obj_read_def Let_def obj_write_literal)
qed

text \<open>
  \<^verbatim>\<open>op_JIF\<close>, \<^verbatim>\<open>op_JMR\<close> and \<^verbatim>\<open>op_OUT\<close> pass their address operand to \<^verbatim>\<open>obj_read\<close> without an
  assertion, and \<^verbatim>\<open>obj_read\<close> takes a literal for its value.
\<close>

lemma op_JMR_literal:
  assumes "fetch pcore = Inr (addr, p1)" and "isnum addr"
  shows "op_JMR pcore = Inr (p1\<lparr>pc := tonum addr\<rparr>)"
  using assms by (simp add: op_JMR_def obj_read_def)

lemma op_JIF_literal:
  assumes "fetch pcore = Inr (flag, p1)" and "fetch p1 = Inr (addr, p2)" and "isnum addr"
  shows "op_JIF pcore = Inr (if \<not> isflag p2 flag then p2\<lparr>pc := tonum addr\<rparr> else p2)"
  using assms by (simp add: op_JIF_def obj_read_def)

lemma op_OUT_literal:
  assumes "fetch pcore = Inr (ch, p1)" and "fetch p1 = Inr (addr, p2)" and "isnum addr"
  shows "op_OUT pcore con = Inr (p2, putout con ch (tonum addr))"
  using assms by (simp add: op_OUT_def obj_read_def)

text \<open>
  Claim C8 at the literal byte 11, that is \<^verbatim>\<open>num_(5)\<close>, in the place of the address of
  \<^verbatim>\<open>JMR\<close>, of \<^verbatim>\<open>JIF\<close> with the ZERO flag clear, and of \<^verbatim>\<open>OUT\<close> on the numeric channel. The
  claim has each of them end in a fault. \<^verbatim>\<open>op_JMR\<close> and \<^verbatim>\<open>op_JIF\<close> return with the program
  counter at 5, and \<^verbatim>\<open>op_OUT\<close> returns having printed 5. \<^verbatim>\<open>MOV\<close> with the same byte as
  destination stops at the assertion.
\<close>

theorem literal_address_accepted_by_JMR_JIF_OUT:
  "op_JMR (example_core [0, 0, 0, 0, 0, 0, 0, 0] [5, 11]\<lparr>pc := 1\<rparr>) =
     Inr (example_core [0, 0, 0, 0, 0, 0, 0, 0] [5, 11]\<lparr>pc := 5\<rparr>) \<and>
   op_JIF (example_core [0, 0, 0, 0, 0, 0, 0, 0] [4, 1, 11]\<lparr>pc := 1\<rparr>) =
     Inr (example_core [0, 0, 0, 0, 0, 0, 0, 0] [4, 1, 11]\<lparr>pc := 5\<rparr>) \<and>
   op_OUT (example_core [0, 0, 0, 0, 0, 0, 0, 0] [8, 1, 11]\<lparr>pc := 1\<rparr>) quiet_console =
     Inr (example_core [0, 0, 0, 0, 0, 0, 0, 0] [8, 1, 11]\<lparr>pc := 3\<rparr>,
          quiet_console\<lparr>stdout := [Print_num 5]\<rparr>) \<and>
   op_MOV (example_core [0, 0, 0, 0, 0, 0, 0, 0] [1, 3, 11]\<lparr>pc := 1\<rparr>) = Inl Assertion_failed"
  by (simp add: op_JMR_def op_JIF_def op_OUT_def op_MOV_def example_core_def fetch_def
      obj_read_def obj_write_def isnum_def tonum_def drop_bit_eq_div isflag_def putout_def
      quiet_console_def IO_CHR_def IO_NUM_def)

section \<open>The range of the registers\<close>

lemma tonum_below: "tonum e < 2147483648"
proof -
  have "unat (tonum e) = unat e div 2"
    by (simp add: tonum_def drop_bit_eq_div unat_div)
  moreover have "unat e < 4294967296"
    using unsigned_less [of e] by simp
  ultimately have "unat (tonum e) < 2147483648" by simp
  then show ?thesis by (simp add: word_less_nat_alt)
qed

lemma ucast_byte_below: "(ucast (b :: u8) :: u32) < 2147483648"
proof -
  have "unat (ucast b :: u32) = take_bit 32 (unat b)"
    by (simp only: unsigned_ucast_eq) simp
  moreover have "unat b < 256" using unsigned_less [of b] by simp
  ultimately have "unat (ucast b :: u32) < 2147483648"
    by (simp add: take_bit_nat_eq_self)
  then show ?thesis by (simp add: word_less_nat_alt)
qed

lemma obj_read_below:
  assumes "regs_below_2_31 p" and "obj_read p e = Inr v"
  shows "v < 2147483648"
proof (cases "isnum e")
  case True
  with assms(2) show ?thesis using tonum_below [of e] by (auto simp add: obj_read_def)
next
  case False
  show ?thesis
  proof (cases "e div 2 < 16")
    case True
    with False assms(2) have "unat (e div 2) < length (r p)" "v = r p ! unat (e div 2)"
      by (auto simp add: obj_read_def Let_def split: if_splits)
    with assms(1) show ?thesis
      by (simp add: regs_below_2_31_def list_all_length)
  next
    case no: False
    with False assms(2) have "v = ucast (pmem p ! unat (e div 2))"
      by (auto simp add: obj_read_def Let_def split: if_splits)
    then show ?thesis by (simp add: ucast_byte_below)
  qed
qed

lemma regs_below_update:
  assumes "regs_below_2_31 p" and "v < 2147483648"
  shows "regs_below_2_31 (p\<lparr>r := (r p)[i := v]\<rparr>)"
  using assms set_update_subset_insert [of "r p" i v]
  by (auto simp add: regs_below_2_31_def list_all_iff)

lemma obj_write_below:
  assumes "regs_below_2_31 p" and "obj_write p a e = Inr p'"
  shows "regs_below_2_31 p' \<and> length (r p') = length (r p)"
proof -
  from assms(2) obtain v where v: "obj_read p e = Inr v"
    and p': "p' = p\<lparr>r := (r p)[unat (a div 2) := v]\<rparr> \<or>
             p' = p\<lparr>pmem := (pmem p)[unat (a div 2) := ucast v]\<rparr>"
    by (auto simp add: obj_write_def Let_def and_then_eq_Inr split: if_splits)
  from obj_read_below [OF assms(1) v] have "v < 2147483648" .
  from p' show ?thesis
  proof
    assume "p' = p\<lparr>r := (r p)[unat (a div 2) := v]\<rparr>"
    then show ?thesis
      using regs_below_update [OF assms(1) \<open>v < 2147483648\<close>] by simp
  next
    assume "p' = p\<lparr>pmem := (pmem p)[unat (a div 2) := ucast v]\<rparr>"
    then show ?thesis using assms(1) by (simp add: regs_below_2_31_def)
  qed
qed

lemma fetch_r: "fetch p = Inr (b, p') \<Longrightarrow> r p' = r p"
  by (auto simp add: fetch_def split: if_splits)

lemma op_MOV_below:
  assumes "regs_below_2_31 p" and "op_MOV p = Inr p'"
  shows "regs_below_2_31 p' \<and> length (r p') = length (r p)"
proof -
  from assms(2) obtain expr p1 addr p2
    where f: "fetch p = Inr (expr, p1)" "fetch p1 = Inr (addr, p2)"
      and w: "obj_write p2 addr expr = Inr p'"
    by (auto simp add: op_MOV_def and_then_eq_Inr)
  from fetch_r [OF f(1)] fetch_r [OF f(2)] have "r p2 = r p" by simp
  with assms(1) have "regs_below_2_31 p2" "length (r p2) = length (r p)"
    by (simp_all add: regs_below_2_31_def)
  with obj_write_below [OF _ w] show ?thesis by simp
qed

lemma op_ATP_below:
  assumes "regs_below_2_31 p" and "op_ATP p = Inr p'"
  shows "regs_below_2_31 p' \<and> length (r p') = length (r p)"
proof -
  from assms(2) obtain expr p1 ixreg p2 a
    where f: "fetch p = Inr (expr, p1)" "fetch p1 = Inr (ixreg, p2)"
      and w: "obj_write p2 (addr_enc a) expr = Inr p'"
    by (auto simp add: op_ATP_def and_then_eq_Inr split: if_splits)
  from fetch_r [OF f(1)] fetch_r [OF f(2)] have "r p2 = r p" by simp
  with assms(1) have "regs_below_2_31 p2" "length (r p2) = length (r p)"
    by (simp_all add: regs_below_2_31_def)
  with obj_write_below [OF _ w] show ?thesis by simp
qed

lemma op_AT_below:
  assumes "regs_below_2_31 p" and "op_AT p = Inr p'"
  shows "regs_below_2_31 p' \<and> length (r p') = length (r p)"
proof -
  from assms(2) obtain ixreg p1 addr p2 a
    where f: "fetch p = Inr (ixreg, p1)" "fetch p1 = Inr (addr, p2)"
      and w: "obj_write p2 addr (addr_enc a) = Inr p'"
    by (auto simp add: op_AT_def and_then_eq_Inr split: if_splits)
  from fetch_r [OF f(1)] fetch_r [OF f(2)] have "r p2 = r p" by simp
  with assms(1) have "regs_below_2_31 p2" "length (r p2) = length (r p)"
    by (simp_all add: regs_below_2_31_def)
  with obj_write_below [OF _ w] show ?thesis by simp
qed

lemma op_ADD_below:
  assumes "regs_below_2_31 p" and "op_ADD p = Inr p'"
  shows "regs_below_2_31 p' \<and> length (r p') = length (r p)"
proof -
  from assms(2) obtain expr p1 addr p2 old delta
    where f: "fetch p = Inr (expr, p1)" "fetch p1 = Inr (addr, p2)"
      and rd: "obj_read p2 addr = Inr old" "obj_read p2 expr = Inr delta"
    by (auto simp add: op_ADD_def and_then_eq_Inr)
  let ?p4 = "setzf (setcf p2 (old + delta < old)) (old + delta = 0)"
  have w: "obj_write ?p4 addr (num_enc (old + delta)) = Inr p'"
    using op_ADD_unfold [OF f rd] assms(2) by simp
  from fetch_r [OF f(1)] fetch_r [OF f(2)] have "r ?p4 = r p" by (simp add: setzf_def setcf_def)
  with assms(1) have "regs_below_2_31 ?p4" "length (r ?p4) = length (r p)"
    by (simp_all add: regs_below_2_31_def)
  with obj_write_below [OF _ w] show ?thesis by simp
qed

lemma op_SUB_below:
  assumes "regs_below_2_31 p" and "op_SUB p = Inr p'"
  shows "regs_below_2_31 p' \<and> length (r p') = length (r p)"
proof -
  from assms(2) obtain expr p1 addr p2 old delta
    where f: "fetch p = Inr (expr, p1)" "fetch p1 = Inr (addr, p2)"
      and rd: "obj_read p2 addr = Inr old" "obj_read p2 expr = Inr delta"
    by (auto simp add: op_SUB_def and_then_eq_Inr)
  let ?p4 = "setzf (setcf p2 (old - delta > old)) (old - delta = 0)"
  have w: "obj_write ?p4 addr (num_enc (old - delta)) = Inr p'"
    using op_SUB_unfold [OF f rd] assms(2) by simp
  from fetch_r [OF f(1)] fetch_r [OF f(2)] have "r ?p4 = r p" by (simp add: setzf_def setcf_def)
  with assms(1) have "regs_below_2_31 ?p4" "length (r ?p4) = length (r p)"
    by (simp_all add: regs_below_2_31_def)
  with obj_write_below [OF _ w] show ?thesis by simp
qed

lemma op_JIF_below:
  assumes "regs_below_2_31 p" and "op_JIF p = Inr p'"
  shows "regs_below_2_31 p' \<and> length (r p') = length (r p)"
  using assms
  by (auto simp add: op_JIF_def and_then_eq_Inr regs_below_2_31_def
      dest!: fetch_Inr split: if_splits)

lemma op_JMR_below:
  assumes "regs_below_2_31 p" and "op_JMR p = Inr p'"
  shows "regs_below_2_31 p' \<and> length (r p') = length (r p)"
  using assms
  by (auto simp add: op_JMR_def and_then_eq_Inr regs_below_2_31_def dest!: fetch_Inr)

lemma op_MPC_below:
  assumes "regs_below_2_31 p" and "op_MPC p = Inr p'"
  shows "regs_below_2_31 p' \<and> length (r p') = length (r p)"
proof -
  from assms(2) obtain addr p1
    where f: "fetch p = Inr (addr, p1)" and w: "obj_write p1 addr (num_enc (pc p1)) = Inr p'"
    by (auto simp add: op_MPC_def and_then_eq_Inr)
  from fetch_r [OF f] have "r p1 = r p" .
  with assms(1) have "regs_below_2_31 p1" "length (r p1) = length (r p)"
    by (simp_all add: regs_below_2_31_def)
  with obj_write_below [OF _ w] show ?thesis by simp
qed

lemma op_IN_below:
  assumes "regs_below_2_31 p" and "op_IN p con = Inr (p', con')"
  shows "regs_below_2_31 p' \<and> length (r p') = length (r p)"
proof -
  from op_IN_result [OF assms(2)] obtain ch p1 addr p2 inp
    where f: "fetch p = Inr (ch, p1)" "fetch p1 = Inr (addr, p2)"
      and w: "obj_write p2 addr (num_enc inp) = Inr p'"
    by auto
  from fetch_r [OF f(1)] fetch_r [OF f(2)] have "r p2 = r p" by simp
  with assms(1) have "regs_below_2_31 p2" "length (r p2) = length (r p)"
    by (simp_all add: regs_below_2_31_def)
  with obj_write_below [OF _ w] show ?thesis by simp
qed

lemma op_OUT_below:
  assumes "regs_below_2_31 p" and "op_OUT p con = Inr (p', con')"
  shows "regs_below_2_31 p' \<and> length (r p') = length (r p)"
  using assms
  by (auto simp add: op_OUT_def and_then_eq_Inr regs_below_2_31_def dest!: fetch_Inr)

lemma call_op_below:
  assumes "regs_below_2_31 p" and "call_op h p con = Inr (p', con')"
  shows "regs_below_2_31 p' \<and> length (r p') = length (r p)"
proof (cases h)
  case SUS
  with assms show ?thesis by (simp add: call_op_def op_SUS_def)
next
  case MOV
  with assms show ?thesis by (auto simp add: call_op_def and_then_eq_Inr dest: op_MOV_below)
next
  case ADD
  with assms show ?thesis by (auto simp add: call_op_def and_then_eq_Inr dest: op_ADD_below)
next
  case SUB
  with assms show ?thesis by (auto simp add: call_op_def and_then_eq_Inr dest: op_SUB_below)
next
  case JIF
  with assms show ?thesis by (auto simp add: call_op_def and_then_eq_Inr dest: op_JIF_below)
next
  case JMR
  with assms show ?thesis by (auto simp add: call_op_def and_then_eq_Inr dest: op_JMR_below)
next
  case MPC
  with assms show ?thesis by (auto simp add: call_op_def and_then_eq_Inr dest: op_MPC_below)
next
  case IN
  with assms show ?thesis by (auto simp add: call_op_def dest: op_IN_below)
next
  case OUT
  with assms show ?thesis by (auto simp add: call_op_def dest: op_OUT_below)
next
  case AT
  with assms show ?thesis by (auto simp add: call_op_def and_then_eq_Inr dest: op_AT_below)
next
  case ATP
  with assms show ?thesis by (auto simp add: call_op_def and_then_eq_Inr dest: op_ATP_below)
qed

lemma step_below:
  assumes "regs_below_2_31 p" and "step (p, con) = Inr (st, p', con')"
  shows "regs_below_2_31 p' \<and> length (r p') = length (r p)"
proof -
  from assms(2) obtain icode p1 where f: "fetch p = Inr (icode, p1)"
    and rest: "(case Core1_op ! unat icode of
                  None \<Rightarrow> Inr (HALTED, p1, con)
                | Some h \<Rightarrow> and_then (call_op h p1 con) (\<lambda>(p2, con2).
                    Inr (if h \<noteq> SUS then RUNNING else HALTED, p2, con2))) = Inr (st, p', con')"
    by (auto simp add: step_def and_then_eq_Inr split: if_splits)
  from fetch_r [OF f] have "r p1 = r p" .
  with assms(1) have p1: "regs_below_2_31 p1" "length (r p1) = length (r p)"
    by (simp_all add: regs_below_2_31_def)
  show ?thesis
  proof (cases "Core1_op ! unat icode")
    case None
    with rest p1 show ?thesis by simp
  next
    case (Some h)
    with rest obtain con2 where "call_op h p1 con = Inr (p', con2)"
      by (auto simp add: and_then_eq_Inr)
    from call_op_below [OF p1(1) this] p1(2) show ?thesis by simp
  qed
qed

lemma run_steps_below:
  assumes "regs_below_2_31 pcore" and "run_steps n (pcore, con) = Inr (st, p', con')"
  shows "regs_below_2_31 p' \<and> length (r p') = length (r pcore)"
  using assms
proof (induction n arbitrary: pcore con)
  case 0
  then show ?case by simp
next
  case (Suc n)
  from Suc.prems(2) obtain st1 p1 con1 where s: "step (pcore, con) = Inr (st1, p1, con1)"
    by (cases "step (pcore, con)") auto
  from step_below [OF Suc.prems(1) s]
  have p1: "regs_below_2_31 p1" "length (r p1) = length (r pcore)" by simp_all
  show ?case
  proof (cases st1)
    case RUNNING
    with s Suc.prems(2) have "run_steps n (p1, con1) = Inr (st, p', con')" by simp
    from Suc.IH [OF p1(1) this] p1(2) show ?thesis by simp
  next
    case HALTED
    with s Suc.prems(2) have "p' = p1" by simp
    with p1 show ?thesis by simp
  qed
qed

text \<open>
  A bounded run that has halted or met a fault is the result of \<^verbatim>\<open>resume_core\<close>, and every
  result of \<^verbatim>\<open>resume_core\<close> is that of a bounded run.
\<close>

lemma run_steps_halted_resume_core:
  "run_steps n st = Inr (HALTED, p', con') \<Longrightarrow> resume_core st = Some (Inr (p', con'))"
proof (induction n arbitrary: st)
  case 0
  then show ?case by simp
next
  case (Suc n)
  then show ?case
    by (subst resume_core.simps) (auto split: sum.splits status.splits)
qed

lemma run_steps_fault_resume_core:
  "run_steps n st = Inl e \<Longrightarrow> resume_core st = Some (Inl e)"
proof (induction n arbitrary: st)
  case 0
  then show ?case by simp
next
  case (Suc n)
  then show ?case
    by (subst resume_core.simps) (auto split: sum.splits status.splits)
qed

lemma resume_core_run_steps:
  assumes "resume_core st = Some res"
  shows "\<exists>n. run_steps n st =
           (case res of Inl e \<Rightarrow> Inl e | Inr (p', con') \<Rightarrow> Inr (HALTED, p', con'))"
  using assms
proof (induction rule: resume_core.raw_induct [rotated 1, consumes 1])
  case (1 resume_core' st res)
  show ?case
  proof (cases "step st")
    case (Inl e)
    with 1(2) have "res = Inl e" by simp
    with Inl have "run_steps (Suc 0) st = (case res of Inl e \<Rightarrow> Inl e
        | Inr (p', con') \<Rightarrow> Inr (HALTED, p', con'))" by simp
    then show ?thesis by blast
  next
    case (Inr t)
    obtain s p con where t: "t = (s, p, con)" by (cases t)
    show ?thesis
    proof (cases s)
      case RUNNING
      with Inr t 1(2) have "resume_core' (p, con) = Some res" by simp
      from 1(1) [OF this] obtain n where "run_steps n (p, con) =
          (case res of Inl e \<Rightarrow> Inl e | Inr (p', con') \<Rightarrow> Inr (HALTED, p', con'))" ..
      with Inr t RUNNING have "run_steps (Suc n) st =
          (case res of Inl e \<Rightarrow> Inl e | Inr (p', con') \<Rightarrow> Inr (HALTED, p', con'))" by simp
      then show ?thesis by blast
    next
      case HALTED
      with Inr t 1(2) have "res = Inr (p, con)" by simp
      with Inr t HALTED have "run_steps (Suc 0) st =
          (case res of Inl e \<Rightarrow> Inl e | Inr (p', con') \<Rightarrow> Inr (HALTED, p', con'))" by simp
      then show ?thesis by blast
    qed
  qed
qed

lemma resume_core_below:
  assumes "regs_below_2_31 pcore" and "resume_core (pcore, con) = Some (Inr (p', con'))"
  shows "regs_below_2_31 p' \<and> length (r p') = length (r pcore)"
proof -
  from resume_core_run_steps [OF assms(2)]
  obtain n where "run_steps n (pcore, con) = Inr (HALTED, p', con')" by auto
  from run_steps_below [OF assms(1) this] show ?thesis .
qed

text \<open>
  Claim C2, as the code has it. The registers are 32-bit and a store into a register is not
  reduced to a byte. What every store into a register keeps is the bound \<open>2^31\<close>: a literal
  has 31 bits, and \<^verbatim>\<open>ADD\<close>, \<^verbatim>\<open>SUB\<close>, \<^verbatim>\<open>MPC\<close> and \<^verbatim>\<open>IN\<close> write their result as a literal. So
  when every register is below \<open>2^31\<close>, as in \<^verbatim>\<open>Core1\<close> where all are 0, then after any
  number of turns of the loop in which no access has left the register array or the pool
  and no assertion has failed, every register is below \<open>2^31\<close>, and there are as
  many registers as before. Nothing is said of a run once an access has left an array: a
  reference with an index from 8 to 15 reads \<^verbatim>\<open>r[8]\<close> to \<^verbatim>\<open>r[15]\<close>, whose content C does not
  define.
\<close>

theorem registers_stay_below_2_31:
  assumes "regs_below_2_31 pcore" and "run_steps n (pcore, con) = Inr (st, p', con')"
  shows "regs_below_2_31 p' \<and> length (r p') = length (r pcore)"
  using assms by (rule run_steps_below)

text \<open>
  The theorem at the built-in image, started with the numbers 1000 and 2 to read: after the
  two \<^verbatim>\<open>IN\<close> instructions at its start, registers 1 and 2 hold 1000 and 2.
\<close>

theorem registers_stay_below_2_31_witness:
  "regs_below_2_31 (Core1\<lparr>pmem := MEM, pmemsize := 128\<rparr>) \<and>
   run_steps 2 (Core1\<lparr>pmem := MEM, pmemsize := 128\<rparr>, quiet_console\<lparr>stdin := [1000, 2]\<rparr>) =
     Inr (RUNNING, Core1\<lparr>pc := 6, r := [0, 1000, 2, 0, 0, 0, 0, 0], pmem := MEM, pmemsize := 128\<rparr>,
          quiet_console) \<and>
   regs_below_2_31
     (Core1\<lparr>pc := 6, r := [0, 1000, 2, 0, 0, 0, 0, 0], pmem := MEM, pmemsize := 128\<rparr>) \<and>
   length (r (Core1\<lparr>pc := 6, r := [0, 1000, 2, 0, 0, 0, 0, 0], pmem := MEM, pmemsize := 128\<rparr>)) =
     length (r (Core1\<lparr>pmem := MEM, pmemsize := 128\<rparr>))"
proof -
  have h1: "regs_below_2_31 (Core1\<lparr>pmem := MEM, pmemsize := 128\<rparr>)"
    by (simp add: regs_below_2_31_def Core1_def)
  have s1: "step (Core1\<lparr>pmem := MEM, pmemsize := 128\<rparr>, quiet_console\<lparr>stdin := [1000, 2]\<rparr>) =
              Inr (RUNNING,
                   Core1\<lparr>pc := 3, r := [0, 1000, 0, 0, 0, 0, 0, 0], pmem := MEM, pmemsize := 128\<rparr>,
                   quiet_console\<lparr>stdin := [2]\<rparr>)"
    by (simp add: step_def fetch_def Core1_def MEM_def Core1_op_def call_op_def op_IN_def
        getinp_def IO_CHR_def IO_NUM_def quiet_console_def obj_write_def obj_read_def isnum_def
        tonum_def num_enc_def drop_bit_eq_div)
  have s2: "step (Core1\<lparr>pc := 3, r := [0, 1000, 0, 0, 0, 0, 0, 0], pmem := MEM, pmemsize := 128\<rparr>,
                  quiet_console\<lparr>stdin := [2]\<rparr>) =
              Inr (RUNNING,
                   Core1\<lparr>pc := 6, r := [0, 1000, 2, 0, 0, 0, 0, 0], pmem := MEM, pmemsize := 128\<rparr>,
                   quiet_console)"
    by (simp add: step_def fetch_def Core1_def MEM_def Core1_op_def call_op_def op_IN_def
        getinp_def IO_CHR_def IO_NUM_def quiet_console_def obj_write_def obj_read_def isnum_def
        tonum_def num_enc_def drop_bit_eq_div)
  have h2: "run_steps 2 (Core1\<lparr>pmem := MEM, pmemsize := 128\<rparr>,
                         quiet_console\<lparr>stdin := [1000, 2]\<rparr>) =
              Inr (RUNNING,
                   Core1\<lparr>pc := 6, r := [0, 1000, 2, 0, 0, 0, 0, 0], pmem := MEM, pmemsize := 128\<rparr>,
                   quiet_console)"
    by (simp add: numeral_2_eq_2 s1 s2)
  show ?thesis
    using registers_stay_below_2_31 [OF h1 h2] h1 h2 by simp
qed

text \<open>
  Claim C2 as stated fails. The first instruction of the built-in image is
  \<^verbatim>\<open>IN IO_NUM, R1\<close>: when the number read is 1000, register 1 holds 1000, which is not a
  byte. And with 200 in register 0, \<^verbatim>\<open>ADD num_(100), R0\<close> leaves 300 there.
\<close>

theorem register_wider_than_byte:
  "step (Core1\<lparr>pmem := MEM, pmemsize := 128\<rparr>, quiet_console\<lparr>stdin := [1000]\<rparr>) =
     Inr (RUNNING, Core1\<lparr>pc := 3, r := [0, 1000, 0, 0, 0, 0, 0, 0], pmem := MEM, pmemsize := 128\<rparr>,
          quiet_console) \<and>
   step (example_core [200, 0, 0, 0, 0, 0, 0, 0] [2, 201, 0], quiet_console) =
     Inr (RUNNING, example_core [300, 0, 0, 0, 0, 0, 0, 0] [2, 201, 0]\<lparr>pc := 3\<rparr>,
          quiet_console) \<and>
   \<not> (1000 :: u32) \<le> 255 \<and> \<not> (300 :: u32) \<le> 255"
  by (simp add: step_def fetch_def Core1_def MEM_def Core1_op_def call_op_def op_IN_def
      op_ADD_def example_core_def setcf_def setzf_def setflag_def FL_ZERO_def FL_CARRY_def
      getinp_def IO_CHR_def IO_NUM_def quiet_console_def obj_write_def obj_read_def isnum_def
      tonum_def num_enc_def drop_bit_eq_div)

section \<open>The image file\<close>

lemma length_put_u32 [simp]: "length (put_u32 w) = 4"
  by (simp add: put_u32_def)

lemma get_put_u32: "get_u32 (put_u32 w) = w"
proof (rule bit_word_eqI)
  fix n
  assume "n < LENGTH(32)"
  then have n: "n < 32" by simp
  consider "n < 8" | "8 \<le> n" "n < 16" | "16 \<le> n" "n < 24" | "24 \<le> n"
    by linarith
  then show "bit (get_u32 (put_u32 w)) n = bit w n"
    using n by cases (auto simp add: get_u32_def put_u32_def bit_simps)
qed

lemma length_header_bytes [simp]: "length (header_bytes h) = 16"
  by (simp add: header_bytes_def)

lemma read_header_bytes: "read_header (header_bytes h @ rest) = h"
  by (simp add: read_header_def header_bytes_def get_put_u32)

lemma length_MEM: "length MEM = 128"
  by (simp add: MEM_def)

lemma save_image_new_file:
  assumes "fs name = None" and "pmemsize pcore = MEM_SIZE" and "length (pmem pcore) = 128"
  shows "save_image pcore (Some name) fs =
           Inr (fs(name \<mapsto> header_bytes \<lparr>h_magic = MAGIC, h_size = 16 + MEM_SIZE,
                                          h_memsize = MEM_SIZE, h_pc = pc pcore\<rparr> @ pmem pcore))"
  using assms by (simp add: save_image_def MEM_SIZE_def Let_def)

lemma load_image_saved:
  assumes "fs name = Some (header_bytes h @ mem)" and "h_magic h = MAGIC"
      and "h_memsize h = MEM_SIZE" and "length mem = 128"
  shows "load_image pcore (Some name) fs =
           (if h_pc h \<ge> MEM_SIZE then Load_failed Pc_beyond_memory
            else Loaded (pcore\<lparr>pc := h_pc h, pmem := mem, pmemsize := MEM_SIZE\<rparr>))"
  using assms by (simp add: load_image_def read_header_bytes Let_def MEM_SIZE_def)

text \<open>
  Claim C7, as the code has it. A core whose program counter is inside its 128-byte pool,
  saved into a new file and loaded into the fresh \<^verbatim>\<open>Core1\<close> of another run, comes back with
  the same program counter and pool, and with the registers and flags of \<^verbatim>\<open>Core1\<close>, which
  are zero.
\<close>

theorem save_then_load_image:
  assumes "fs name = None" and "pmemsize pcore = MEM_SIZE" and "length (pmem pcore) = 128"
      and "pc pcore < MEM_SIZE"
  shows "\<exists>fs' p'. save_image pcore (Some name) fs = Inr fs' \<and>
           load_image Core1 (Some name) fs' = Loaded p' \<and>
           pc p' = pc pcore \<and> pmem p' = pmem pcore \<and> pmemsize p' = pmemsize pcore \<and>
           r p' = [0, 0, 0, 0, 0, 0, 0, 0] \<and> fr p' = 0"
proof -
  let ?h = "\<lparr>h_magic = MAGIC, h_size = 16 + MEM_SIZE, h_memsize = MEM_SIZE, h_pc = pc pcore\<rparr>"
  let ?fs' = "fs(name \<mapsto> header_bytes ?h @ pmem pcore)"
  have s: "save_image pcore (Some name) fs = Inr ?fs'"
    using assms(1-3) by (rule save_image_new_file)
  have "\<not> MEM_SIZE \<le> pc pcore" using assms(4) by (simp only: not_le)
  then have l: "load_image Core1 (Some name) ?fs' =
                  Loaded (Core1\<lparr>pc := pc pcore, pmem := pmem pcore, pmemsize := MEM_SIZE\<rparr>)"
    using load_image_saved [of ?fs' name ?h "pmem pcore" Core1] assms(3) by simp
  show ?thesis
    using s l assms(2) by (simp add: Core1_def)
qed

text \<open>
  The theorem at the built-in pool with the program counter at 49, after the \<^verbatim>\<open>SUS\<close> of the
  bootstrap program, with numbers in the registers and both flags set.
\<close>

theorem save_then_load_image_witness:
  "\<exists>fs' p'. save_image \<lparr>pc = 49, fr = 3, r = [1, 2, 3, 4, 5, 6, 7, 8], pmem = MEM, pmemsize = 128\<rparr>
               (Some ''image'') Map.empty = Inr fs' \<and>
     load_image Core1 (Some ''image'') fs' = Loaded p' \<and>
     pc p' = 49 \<and> pmem p' = MEM \<and> pmemsize p' = 128 \<and>
     r p' = [0, 0, 0, 0, 0, 0, 0, 0] \<and> fr p' = 0"
  using save_then_load_image [of Map.empty "''image''"
      "\<lparr>pc = 49, fr = 3, r = [1, 2, 3, 4, 5, 6, 7, 8], pmem = MEM, pmemsize = 128\<rparr>"]
  by (simp add: MEM_SIZE_def length_MEM)

text \<open>
  Claim C7 as stated fails for a core that has halted at the end of its pool. With the
  program counter at 127, where the built-in pool holds \<^verbatim>\<open>SUS\<close>, the loop halts with the
  program counter at 128. \<^verbatim>\<open>save_image\<close> writes that value, and \<^verbatim>\<open>load_image\<close> rejects the
  file because the program counter is not below the size of the pool.
\<close>

theorem image_saved_at_end_of_pool_not_loaded:
  "step (Core1\<lparr>pc := 127, pmem := MEM, pmemsize := 128\<rparr>, quiet_console) =
     Inr (HALTED, Core1\<lparr>pc := 128, pmem := MEM, pmemsize := 128\<rparr>, quiet_console) \<and>
   save_image (Core1\<lparr>pc := 128, pmem := MEM, pmemsize := 128\<rparr>) (Some ''image'') Map.empty =
     Inr [''image'' \<mapsto> header_bytes \<lparr>h_magic = MAGIC, h_size = 144, h_memsize = 128,
                                       h_pc = 128\<rparr> @ MEM] \<and>
   load_image Core1 (Some ''image'')
       [''image'' \<mapsto> header_bytes \<lparr>h_magic = MAGIC, h_size = 144, h_memsize = 128,
                                   h_pc = 128\<rparr> @ MEM] =
     Load_failed Pc_beyond_memory"
proof -
  have "step (Core1\<lparr>pc := 127, pmem := MEM, pmemsize := 128\<rparr>, quiet_console) =
          Inr (HALTED, Core1\<lparr>pc := 128, pmem := MEM, pmemsize := 128\<rparr>, quiet_console)"
    by (simp add: step_def fetch_def Core1_def MEM_def Core1_op_def call_op_def op_SUS_def
        nth_append)
  moreover have "save_image (Core1\<lparr>pc := 128, pmem := MEM, pmemsize := 128\<rparr>) (Some ''image'')
                   Map.empty =
                 Inr [''image'' \<mapsto> header_bytes \<lparr>h_magic = MAGIC, h_size = 144, h_memsize = 128,
                                                   h_pc = 128\<rparr> @ MEM]"
    using save_image_new_file [of Map.empty "''image''"
        "Core1\<lparr>pc := 128, pmem := MEM, pmemsize := 128\<rparr>"]
    by (simp add: MEM_SIZE_def length_MEM)
  moreover have "load_image Core1 (Some ''image'')
                   [''image'' \<mapsto> header_bytes \<lparr>h_magic = MAGIC, h_size = 144, h_memsize = 128,
                                               h_pc = 128\<rparr> @ MEM] =
                 Load_failed Pc_beyond_memory"
    using load_image_saved [of "[''image'' \<mapsto> header_bytes \<lparr>h_magic = MAGIC, h_size = 144,
        h_memsize = 128, h_pc = 128\<rparr> @ MEM]" "''image''"
        "\<lparr>h_magic = MAGIC, h_size = 144, h_memsize = 128, h_pc = 128\<rparr>" MEM Core1]
    by (simp add: MEM_SIZE_def length_MEM)
  ultimately show ?thesis by simp
qed

section \<open>Loading fails\<close>

lemma load_image_cases:
  "load_image pcore (Some name) fs =
     (case fs name of
        None \<Rightarrow> Load_failed File_unreadable
      | Some bytes \<Rightarrow>
          if length bytes < 16 then Load_failed Short_header
          else if h_magic (read_header bytes) \<noteq> MAGIC then Load_failed Bad_magic
          else if h_memsize (read_header bytes) = 0 then Load_aborted
          else if h_memsize (read_header bytes) \<noteq> MEM_SIZE then Load_failed Size_mismatch
          else if h_memsize (read_header bytes) \<le> h_pc (read_header bytes)
            then Load_failed Pc_beyond_memory
          else if length bytes < 144 then Load_failed Short_payload
          else Loaded (pcore\<lparr>pc := h_pc (read_header bytes), pmem := take 128 (drop 16 bytes),
                              pmemsize := MEM_SIZE\<rparr>))"
proof (cases "fs name")
  case None
  then show ?thesis by (simp add: load_image_def)
next
  case (Some bytes)
  have "(\<not> 0 < h_memsize (read_header bytes)) = (h_memsize (read_header bytes) = 0)"
    by (simp add: word_greater_zero_iff)
  moreover have "length (drop 16 bytes) < 128 \<longleftrightarrow> length bytes < 144" by auto
  ultimately show ?thesis
    using Some by (auto simp add: load_image_def Let_def MEM_SIZE_def)
qed

text \<open>
  Claim C9, as the code has it. When the file cannot be opened, or is shorter than a
  header, or has another magic number, or a size of pool other than 128, or a program
  counter that is not below the size of the pool, \<^verbatim>\<open>load_image\<close> never gives a core to run.
  \<^verbatim>\<open>main\<close> then exits with status 1, with the files and the console as they were, except
  when the header is complete, has the right magic number and the size 0: the process
  then aborts at \<^verbatim>\<open>assert(0 < h.memsize)\<close>.
\<close>

theorem failed_load_runs_nothing:
  assumes "fs name = None \<or>
           (\<exists>bytes. fs name = Some bytes \<and>
              (length bytes < 16 \<or> h_magic (read_header bytes) \<noteq> MAGIC \<or>
               h_memsize (read_header bytes) \<noteq> MEM_SIZE \<or>
               h_memsize (read_header bytes) \<le> h_pc (read_header bytes)))"
  shows "(\<forall>p. load_image Core1 (Some name) fs \<noteq> Loaded p) \<and>
         (if \<exists>bytes. fs name = Some bytes \<and> 16 \<le> length bytes \<and>
               h_magic (read_header bytes) = MAGIC \<and> h_memsize (read_header bytes) = 0
          then main (Some name) savefile fs con = Some Abort
          else \<exists>e. load_image Core1 (Some name) fs = Load_failed e \<and>
                 main (Some name) savefile fs con = Some (Exit 1 (Some e) fs con))"
proof (cases "fs name")
  case None
  then show ?thesis by (simp add: main_def load_image_cases)
next
  case (Some bytes)
  with assms have bad: "length bytes < 16 \<or> h_magic (read_header bytes) \<noteq> MAGIC \<or>
      h_memsize (read_header bytes) \<noteq> MEM_SIZE \<or>
      h_memsize (read_header bytes) \<le> h_pc (read_header bytes)"
    by simp
  show ?thesis
  proof (cases "length bytes < 16")
    case True
    with Some show ?thesis by (simp add: main_def load_image_cases)
  next
    case long: False
    show ?thesis
    proof (cases "h_magic (read_header bytes) = MAGIC")
      case False
      with Some long show ?thesis by (simp add: main_def load_image_cases)
    next
      case magic: True
      show ?thesis
      proof (cases "h_memsize (read_header bytes) = 0")
        case True
        with Some long magic show ?thesis by (simp add: main_def load_image_cases)
      next
        case nonzero: False
        show ?thesis
        proof (cases "h_memsize (read_header bytes) = MEM_SIZE")
          case False
          with Some long magic nonzero show ?thesis by (simp add: main_def load_image_cases)
        next
          case True
          with bad long magic have "h_memsize (read_header bytes) \<le> h_pc (read_header bytes)"
            by simp
          with Some long magic nonzero True show ?thesis
            by (simp add: main_def load_image_cases)
        qed
      qed
    qed
  qed
qed

text \<open>
  The theorem at a file of 80 bytes whose header has the right magic number and the size
  64: \<^verbatim>\<open>main\<close> exits with status 1 and the message of a size mismatch.
\<close>

theorem failed_load_runs_nothing_witness:
  "(\<forall>p. load_image Core1 (Some ''image'')
           [''image'' \<mapsto> header_bytes \<lparr>h_magic = MAGIC, h_size = 80, h_memsize = 64, h_pc = 0\<rparr>
                          @ replicate 64 0] \<noteq> Loaded p) \<and>
   main (Some ''image'') None
       [''image'' \<mapsto> header_bytes \<lparr>h_magic = MAGIC, h_size = 80, h_memsize = 64, h_pc = 0\<rparr>
                      @ replicate 64 0] quiet_console =
     Some (Exit 1 (Some Size_mismatch)
       [''image'' \<mapsto> header_bytes \<lparr>h_magic = MAGIC, h_size = 80, h_memsize = 64, h_pc = 0\<rparr>
                      @ replicate 64 0] quiet_console)"
proof -
  let ?fs = "[''image'' \<mapsto> header_bytes \<lparr>h_magic = MAGIC, h_size = 80, h_memsize = 64,
                                           h_pc = 0\<rparr> @ replicate 64 0]"
  have l: "load_image Core1 (Some ''image'') ?fs = Load_failed Size_mismatch"
    by (simp add: load_image_cases read_header_bytes MEM_SIZE_def)
  show ?thesis
    using failed_load_runs_nothing [of ?fs "''image''" None quiet_console] l
    by (simp add: read_header_bytes MEM_SIZE_def)
qed

text \<open>
  Claim C9 as stated fails for a size of pool of 0: the size differs from 128, and the
  process aborts at the assertion instead of exiting with status 1.
\<close>

theorem load_of_size_0_aborts:
  "main (Some ''image'') None
       [''image'' \<mapsto> header_bytes \<lparr>h_magic = MAGIC, h_size = 16, h_memsize = 0, h_pc = 0\<rparr>]
       quiet_console = Some Abort \<and>
   h_memsize \<lparr>h_magic = MAGIC, h_size = 16, h_memsize = 0, h_pc = 0\<rparr> \<noteq> MEM_SIZE"
  using read_header_bytes [of "\<lparr>h_magic = MAGIC, h_size = 16, h_memsize = 0, h_pc = 0\<rparr>" "[]"]
  by (simp add: main_def load_image_cases MEM_SIZE_def)

end
